theory Spec2Isabelle
  imports Main "HOL-Library.Word"
begin

section \<open>The photo gallery hook\<close>

text \<open>
  The hook \<^verbatim>\<open>usePhotoGallery\<close> of \<^verbatim>\<open>src/hooks/usePhotoGallery_new.ts\<close>
  keeps a list of photo records in React state, a serialised copy of that list
  in the Preferences store under the key \<open>photos\<close>, and one file per photo in the
  Filesystem's data directory. Its three asynchronous operations \<open>takePhoto\<close>,
  \<open>deletePhoto\<close> and \<open>loadSaved\<close> are modelled as functions from a world (the three
  tiers) to an outcome and the world they leave behind. What the host answers during one
  invocation (camera, clock, fetch, file reader, storage faults) is a record of type
  \<open>env\<close> passed to the operation. An awaited call that rejects makes the operation
  reject at that point, with the world as it is then.
\<close>

subsection \<open>Records and errors\<close>

record UserPhoto =
  filepath :: string
  webviewPath :: "string option"

text \<open>The fields of Capacitor's \<open>Photo\<close> that the hook reads; both are optional.\<close>

record Photo =
  path :: "string option"
  webPath :: "string option"

definition PHOTO_STORAGE :: string where
  "PHOTO_STORAGE = ''photos''"

text \<open>
  Rejection reasons. \<open>Message\<close> is a rejection with a plain string, as
  \<open>base64FromPath\<close> produces; the others name the failures of the camera, the
  storage services, the network, the file reader and \<open>JSON.parse\<close>.
\<close>

datatype error =
    UserCancelled
  | PermissionDenied
  | NotFound
  | IOError
  | NetworkError
  | ReaderError
  | SyntaxError
  | Message string

subsection \<open>JavaScript string built-ins used by the hook\<close>

text \<open>\<open>s.lastIndexOf(c)\<close>: the index of the last occurrence of \<open>c\<close>, or \<open>-1\<close>.\<close>

definition lastIndexOf :: "string \<Rightarrow> char \<Rightarrow> int" where
  "lastIndexOf s c =
     (if c \<in> set s
      then int (length s) - 1 - int (length (takeWhile (\<lambda>x. x \<noteq> c) (rev s)))
      else - 1)"

text \<open>
  \<open>s.substr(start)\<close> with the length omitted: the characters from \<open>start\<close> to the
  end; a negative \<open>start\<close> counts from the end and is clamped at the beginning.
\<close>

definition substr :: "string \<Rightarrow> int \<Rightarrow> string" where
  "substr s start =
     (if start < 0 then drop (nat (max (int (length s) + start) 0)) s
      else drop (nat start) s)"

text \<open>The decimal digits of a non-negative integer, as \<open>Date.now() + '.jpeg'\<close> renders it.\<close>

definition digit :: "nat \<Rightarrow> char" where
  "digit n = ''0123456789'' ! n"

fun digits :: "nat \<Rightarrow> string" where
  "digits n =
     (if n < 10 then [digit n]
      else digits (n div 10) @ [digit (n mod 10)])"

declare digits.simps [simp del]

subsection \<open>\<open>JSON.stringify\<close> and \<open>JSON.parse\<close> on lists of photo records\<close>

text \<open>
  \<open>JSON.stringify\<close> of a \<open>UserPhoto[]\<close>: a compact array of objects, the
  \<open>filepath\<close> member first, the \<open>webviewPath\<close> member left out when it is
  undefined, strings quoted with the escapes of ECMAScript's \<open>QuoteJSONString\<close>.
\<close>

abbreviation dq :: char where
  "dq \<equiv> CHR 0x22"

abbreviation bs :: char where
  "bs \<equiv> CHR 0x5C"

definition hexdigit :: "nat \<Rightarrow> char" where
  "hexdigit n = ''0123456789abcdef'' ! n"

definition unhex :: "char \<Rightarrow> nat option" where
  "unhex c =
     (let n = (of_char c :: nat)
      in if 48 \<le> n \<and> n \<le> 57 then Some (n - 48)
         else if 97 \<le> n \<and> n \<le> 102 then Some (n - 87)
         else if 65 \<le> n \<and> n \<le> 70 then Some (n - 55)
         else None)"

definition escape_char :: "char \<Rightarrow> string" where
  "escape_char c =
     (if c = CHR 0x08 then [bs, CHR ''b'']
      else if c = CHR 0x09 then [bs, CHR ''t'']
      else if c = CHR 0x0A then [bs, CHR ''n'']
      else if c = CHR 0x0C then [bs, CHR ''f'']
      else if c = CHR 0x0D then [bs, CHR ''r'']
      else if c = dq then [bs, dq]
      else if c = bs then [bs, bs]
      else if (of_char c :: nat) < 32
        then [bs, CHR ''u'', CHR ''0'', CHR ''0'',
              hexdigit (of_char c div 16), hexdigit (of_char c mod 16)]
      else [c])"

definition quoteJSON :: "string \<Rightarrow> string" where
  "quoteJSON s = dq # concat (map escape_char s) @ [dq]"

definition stringify_photo :: "UserPhoto \<Rightarrow> string" where
  "stringify_photo p =
     ''{'' @ quoteJSON ''filepath'' @ '':'' @ quoteJSON (filepath p) @
     (case webviewPath p of
        None \<Rightarrow> []
      | Some v \<Rightarrow> '','' @ quoteJSON ''webviewPath'' @ '':'' @ quoteJSON v) @
     ''}''"

fun join_comma :: "string list \<Rightarrow> string" where
  "join_comma [] = []"
| "join_comma [x] = x"
| "join_comma (x # y # ys) = x @ '','' @ join_comma (y # ys)"

definition JSON_stringify :: "UserPhoto list \<Rightarrow> string" where
  "JSON_stringify ps = ''['' @ join_comma (map stringify_photo ps) @ '']''"

text \<open>
  \<open>JSON.parse(value) as UserPhoto[]\<close>. The cast is unchecked in the source; the texts
  read here are those of the declared type: an array of objects with a string
  \<open>filepath\<close> and an optional string \<open>webviewPath\<close>, in either order, with JSON
  white space between tokens. Any other text is read as a \<open>SyntaxError\<close>. The text
  is first cut into tokens, then the tokens are read as a list of records.
\<close>

datatype token = LBracket | RBracket | LBrace | RBrace | Colon | Comma | Str string

datatype mode = Outside | Inside string

definition unescape :: "char \<Rightarrow> char option" where
  "unescape e =
     (if e = dq then Some dq
      else if e = bs then Some bs
      else if e = CHR ''/'' then Some (CHR ''/'')
      else if e = CHR ''b'' then Some (CHR 0x08)
      else if e = CHR ''f'' then Some (CHR 0x0C)
      else if e = CHR ''n'' then Some (CHR 0x0A)
      else if e = CHR ''r'' then Some (CHR 0x0D)
      else if e = CHR ''t'' then Some (CHR 0x09)
      else None)"

text \<open>A \<open>\uXXXX\<close> escape; characters are bytes here, so only \<open>\u00XX\<close> is read.\<close>

definition unicode_escape :: "char \<Rightarrow> char \<Rightarrow> char \<Rightarrow> char \<Rightarrow> char option" where
  "unicode_escape a b c d =
     (case (unhex a, unhex b, unhex c, unhex d) of
        (Some x3, Some x2, Some x1, Some x0) \<Rightarrow>
          (if x3 = 0 \<and> x2 = 0 then Some (char_of (16 * x1 + x0)) else None)
      | _ \<Rightarrow> None)"

text \<open>
  The scanner is in mode \<open>Outside\<close> between tokens and in mode \<open>Inside acc\<close> within
  a string literal, \<open>acc\<close> holding the literal's characters so far, last one first.
\<close>

fun scan :: "mode \<Rightarrow> string \<Rightarrow> token list option" where
  "scan Outside [] = Some []"
| "scan (Inside acc) [] = None"
| "scan Outside (c # cs) =
     (if c = dq then scan (Inside []) cs
      else if c = CHR ''['' then map_option ((#) LBracket) (scan Outside cs)
      else if c = CHR '']'' then map_option ((#) RBracket) (scan Outside cs)
      else if c = CHR ''{'' then map_option ((#) LBrace) (scan Outside cs)
      else if c = CHR ''}'' then map_option ((#) RBrace) (scan Outside cs)
      else if c = CHR '':'' then map_option ((#) Colon) (scan Outside cs)
      else if c = CHR '','' then map_option ((#) Comma) (scan Outside cs)
      else if c = CHR '' '' \<or> c = CHR 0x09 \<or> c = CHR 0x0A \<or> c = CHR 0x0D
        then scan Outside cs
      else None)"
| "scan (Inside acc) (c # cs) =
     (if c = dq then map_option ((#) (Str (rev acc))) (scan Outside cs)
      else if c = bs then
        (case cs of
           [] \<Rightarrow> None
         | e # cs' \<Rightarrow>
             if e = CHR ''u'' then
               (case cs' of
                  a # b # x # y # rest \<Rightarrow>
                    (case unicode_escape a b x y of
                       None \<Rightarrow> None
                     | Some d \<Rightarrow> scan (Inside (d # acc)) rest)
                | _ \<Rightarrow> None)
             else
               (case unescape e of
                  None \<Rightarrow> None
                | Some d \<Rightarrow> scan (Inside (d # acc)) cs'))
      else if (of_char c :: nat) < 32 then None
      else scan (Inside (c # acc)) cs)"

definition photo_of :: "(string \<times> string) list \<Rightarrow> UserPhoto option" where
  "photo_of kvs =
     (case kvs of
        [(k, v)] \<Rightarrow>
          if k = ''filepath'' then Some \<lparr>filepath = v, webviewPath = None\<rparr> else None
      | [(k, v), (k', v')] \<Rightarrow>
          if k = ''filepath'' \<and> k' = ''webviewPath''
            then Some \<lparr>filepath = v, webviewPath = Some v'\<rparr>
          else if k = ''webviewPath'' \<and> k' = ''filepath''
            then Some \<lparr>filepath = v', webviewPath = Some v\<rparr>
          else None
      | _ \<Rightarrow> None)"

definition member :: "token list \<Rightarrow> ((string \<times> string) \<times> token list) option" where
  "member ts =
     (case ts of
        Str k # Colon # Str v # r \<Rightarrow> Some ((k, v), r)
      | _ \<Rightarrow> None)"

definition object :: "token list \<Rightarrow> (UserPhoto \<times> token list) option" where
  "object ts =
     (case ts of
        LBrace # ts1 \<Rightarrow>
          (case member ts1 of
             Some (kv, RBrace # r) \<Rightarrow> map_option (\<lambda>p. (p, r)) (photo_of [kv])
           | Some (kv, Comma # ts2) \<Rightarrow>
               (case member ts2 of
                  Some (kv', RBrace # r) \<Rightarrow> map_option (\<lambda>p. (p, r)) (photo_of [kv, kv'])
                | _ \<Rightarrow> None)
           | _ \<Rightarrow> None)
      | _ \<Rightarrow> None)"

function elements :: "token list \<Rightarrow> UserPhoto list option" where
  "elements ts =
     (case object ts of
        None \<Rightarrow> None
      | Some (p, r) \<Rightarrow>
          (case r of
             [RBracket] \<Rightarrow> Some [p]
           | Comma # r' \<Rightarrow> map_option ((#) p) (elements r')
           | _ \<Rightarrow> None))"
  by pat_completeness auto
termination
  by (relation "measure length")
     (auto simp: object_def member_def
           split: list.splits token.splits option.splits prod.splits)

declare elements.simps [simp del]

definition JSON_parse :: "string \<Rightarrow> UserPhoto list option" where
  "JSON_parse s =
     (case scan Outside s of
        None \<Rightarrow> None
      | Some [LBracket, RBracket] \<Rightarrow> Some []
      | Some (LBracket # ts) \<Rightarrow> elements ts
      | Some _ \<Rightarrow> None)"

text \<open>The tokens of a serialised record and of a serialised list, used in the proofs.\<close>

definition photo_tokens :: "UserPhoto \<Rightarrow> token list" where
  "photo_tokens p =
     [LBrace, Str ''filepath'', Colon, Str (filepath p)] @
     (case webviewPath p of
        None \<Rightarrow> []
      | Some v \<Rightarrow> [Comma, Str ''webviewPath'', Colon, Str v]) @
     [RBrace]"

fun list_tokens :: "UserPhoto list \<Rightarrow> token list" where
  "list_tokens [] = []"
| "list_tokens [p] = photo_tokens p"
| "list_tokens (p # q # ps) = photo_tokens p @ Comma # list_tokens (q # ps)"

subsection \<open>Blobs, base64 and data URLs\<close>

type_synonym byte = "8 word"

record blob =
  blob_type :: string
  blob_bytes :: "byte list"

definition base64_alphabet :: string where
  "base64_alphabet =
     ''ABCDEFGHIJKLMNOPQRSTUVWXYZabcdefghijklmnopqrstuvwxyz0123456789+/''"

definition b64 :: "nat \<Rightarrow> char" where
  "b64 n = base64_alphabet ! n"

text \<open>The base64 encoding of RFC 4648, with padding.\<close>

fun base64 :: "byte list \<Rightarrow> string" where
  "base64 [] = []"
| "base64 [a] =
     [b64 (unat a div 4), b64 (unat a mod 4 * 16), CHR ''='', CHR ''='']"
| "base64 [a, b] =
     [b64 (unat a div 4), b64 (unat a mod 4 * 16 + unat b div 16),
      b64 (unat b mod 16 * 4), CHR ''='']"
| "base64 (a # b # c # rest) =
     [b64 (unat a div 4), b64 (unat a mod 4 * 16 + unat b div 16),
      b64 (unat b mod 16 * 4 + unat c div 64), b64 (unat c mod 64)] @ base64 rest"

text \<open>
  Decoding, to state that a stored text gives the bytes back: the place of a character
  in the alphabet, and the bytes of a padded base64 text, four characters at a time.
\<close>

fun position :: "'a \<Rightarrow> 'a list \<Rightarrow> nat option" where
  "position x [] = None"
| "position x (y # ys) = (if x = y then Some 0 else map_option Suc (position x ys))"

definition b64_index :: "char \<Rightarrow> nat option" where
  "b64_index c = position c base64_alphabet"

fun base64_decode :: "string \<Rightarrow> byte list option" where
  "base64_decode [] = Some []"
| "base64_decode (c1 # c2 # c3 # c4 # rest) =
     (case (b64_index c1, b64_index c2) of
        (Some s1, Some s2) \<Rightarrow>
          if c3 = CHR ''='' \<and> c4 = CHR ''='' \<and> rest = []
          then Some [of_nat (s1 * 4 + s2 div 16)]
          else
            (case b64_index c3 of
               None \<Rightarrow> None
             | Some s3 \<Rightarrow>
                 if c4 = CHR ''='' \<and> rest = []
                 then Some [of_nat (s1 * 4 + s2 div 16), of_nat (s2 mod 16 * 16 + s3 div 4)]
                 else
                   (case b64_index c4 of
                      None \<Rightarrow> None
                    | Some s4 \<Rightarrow>
                        map_option
                          (\<lambda>bytes. of_nat (s1 * 4 + s2 div 16) #
                                    of_nat (s2 mod 16 * 16 + s3 div 4) #
                                    of_nat (s3 mod 4 * 64 + s4) # bytes)
                          (base64_decode rest)))
      | _ \<Rightarrow> None)"
| "base64_decode _ = None"

text \<open>
  The string that \<open>FileReader.readAsDataURL\<close> produces for a blob according to the
  File API: the scheme, the blob's type, the base64 marker and the payload.
\<close>

definition dataURL :: "blob \<Rightarrow> string" where
  "dataURL b = ''data:'' @ blob_type b @ '';base64,'' @ base64 (blob_bytes b)"

text \<open>
  Modelled from the spec: section 8 has a browser save leave the base64 encoding of the
  bytes in the Blob Store. The web implementation of Capacitor's \<open>Filesystem\<close>, which
  the sources only call, gets there by keeping, of the data handed to
  \<open>writeFile\<close>, what follows the comma:
  \<^verbatim>\<open>data.indexOf(',') >= 0 ? data.split(',')[1] : data\<close>.
\<close>

definition afterComma :: "string \<Rightarrow> string" where
  "afterComma data =
     (if CHR '','' \<in> set data
      then takeWhile (\<lambda>x. x \<noteq> CHR '','') (tl (dropWhile (\<lambda>x. x \<noteq> CHR '','') data))
      else data)"

text \<open>What a \<open>FileReader\<close> reports: an error event, or a load event with its result.\<close>

datatype reader_result = ResultString string | ResultArrayBuffer "byte list" | ResultNull

datatype reader_event = OnError error | OnLoad reader_result

subsection \<open>The host of one invocation, and the three tiers\<close>

text \<open>
  \<^item> \<open>isHybrid\<close>: the answer of \<open>isPlatform('hybrid')\<close>;
  \<^item> \<open>Camera_getPhoto\<close>: how \<open>Camera.getPhoto\<close> settles;
  \<^item> \<open>Date_now\<close>: the value of \<open>Date.now()\<close>;
  \<^item> \<open>readFile_path\<close>: how \<open>Filesystem.readFile\<close> without a directory settles
    for the capture's own path (native platforms);
  \<^item> \<open>fetch_blob\<close>: how \<open>fetch(path)\<close> followed by \<open>response.blob()\<close> settles;
  \<^item> \<open>readAsDataURL\<close>: the event the \<open>FileReader\<close> fires for a blob;
  \<^item> \<open>writeFile_fault\<close>, \<open>readFile_fault\<close>, \<open>deleteFile_fault\<close>,
    \<open>get_fault\<close>: a storage failure injected into the call, if any;
  \<^item> \<open>writeFile_uri\<close>: the \<open>uri\<close> that \<open>Filesystem.writeFile\<close> returns for a name;
  \<^item> \<open>writeFile_keeps\<close>: what the data directory keeps of the data handed to
    \<open>Filesystem.writeFile\<close>: on browser hosts what follows the comma of a data
    URL (\<open>afterComma\<close>), on native hosts the base64 text as it is;
  \<^item> \<open>convertFileSrc\<close>: \<open>Capacitor.convertFileSrc\<close>.
  The non-null assertions \<open>photo.path!\<close> and \<open>photo.webPath!\<close> check nothing at run
  time, so the host is asked with the optional value as it is.
\<close>

record env =
  isHybrid :: bool
  Camera_getPhoto :: "error + Photo"
  Date_now :: nat
  readFile_path :: "string option \<Rightarrow> error + string"
  fetch_blob :: "string option \<Rightarrow> error + blob"
  readAsDataURL :: "blob \<Rightarrow> reader_event"
  writeFile_fault :: "error option"
  writeFile_uri :: "string \<Rightarrow> string"
  writeFile_keeps :: "string \<Rightarrow> string"
  readFile_fault :: "string \<Rightarrow> error option"
  deleteFile_fault :: "error option"
  get_fault :: "error option"
  convertFileSrc :: "string \<Rightarrow> string"

text \<open>
  \<^item> \<open>photos\<close>: the React state of the hook;
  \<^item> \<open>preferences\<close>: the settled contents of the Preferences store;
  \<^item> \<open>issued\<close>: the \<open>Preferences.set\<close> calls that were made and whose promise has
    not settled yet, oldest first (the hook never awaits them);
  \<^item> \<open>dataDir\<close>: the files of \<open>Directory.Data\<close>.
\<close>

record world =
  photos :: "UserPhoto list"
  preferences :: "string \<rightharpoonup> string"
  issued :: "(string \<times> string) list"
  dataDir :: "string \<rightharpoonup> string"

text \<open>\<open>setPhotos\<close>: the new list is the state that the next render and the next call see.\<close>

definition setPhotos :: "UserPhoto list \<Rightarrow> world \<Rightarrow> world" where
  "setPhotos ps w = w\<lparr>photos := ps\<rparr>"

text \<open>
  Modelled from the spec: the Index Store of section 6, which the sources only call
  (\<open>Preferences\<close> of Capacitor). \<open>set\<close> is asynchronous (section 5 lists every
  Index Store call as a suspension point) and may fail with \<open>IOError\<close>. The hook
  calls \<open>Preferences.set\<close> without \<open>await\<close>: the write is issued, nothing more.
\<close>

definition Preferences_set :: "string \<Rightarrow> string \<Rightarrow> world \<Rightarrow> world" where
  "Preferences_set k v w = w\<lparr>issued := issued w @ [(k, v)]\<rparr>"

text \<open>
  Modelled from the spec: the completion of an Index Store \<open>set\<close>. The oldest issued
  write settles: it reaches the store, or it fails and is lost (its rejection has no
  handler).
\<close>

definition settle :: "error option \<Rightarrow> world \<Rightarrow> world" where
  "settle fault w =
     (case issued w of
        [] \<Rightarrow> w
      | (k, v) # rest \<Rightarrow>
          (case fault of
             None \<Rightarrow> w\<lparr>preferences := (preferences w)(k \<mapsto> v), issued := rest\<rparr>
           | Some e \<Rightarrow> w\<lparr>issued := rest\<rparr>))"

text \<open>
  Modelled from the spec: every index write issued so far has completed, oldest first,
  none of them failing.
\<close>

definition settle_all :: "world \<Rightarrow> world" where
  "settle_all w = (settle None ^^ length (issued w)) w"

text \<open>
  Modelled from the spec: \<open>get(key)\<close> of the Index Store, a value or absent.
  \<open>await Preferences.get\<close> yields the settled value of the key, \<open>None\<close> for
  \<open>null\<close>.
\<close>

definition Preferences_get :: "env \<Rightarrow> string \<Rightarrow> world \<Rightarrow> error + string option" where
  "Preferences_get c k w =
     (case get_fault c of
        Some e \<Rightarrow> Inl e
      | None \<Rightarrow> Inr (preferences w k))"

text \<open>
  Modelled from the spec: the Blob Store of section 6, which the sources only call
  (\<open>Filesystem\<close> of Capacitor): named files in one directory; \<open>write\<close> returns the
  storage URI, \<open>read\<close> and \<open>delete\<close> fail with \<open>NotFound\<close> when the name is
  absent, and each call may fail with \<open>IOError\<close>. What the directory keeps of the
  data it is handed is left to the host.
\<close>

text \<open>\<open>await Filesystem.writeFile\<close> into \<open>Directory.Data\<close>; resolves with the uri.\<close>

definition Filesystem_writeFile ::
  "env \<Rightarrow> string \<Rightarrow> string \<Rightarrow> world \<Rightarrow> (error + string) \<times> world" where
  "Filesystem_writeFile c name data w =
     (case writeFile_fault c of
        Some e \<Rightarrow> (Inl e, w)
      | None \<Rightarrow>
          (Inr (writeFile_uri c name),
           w\<lparr>dataDir := (dataDir w)(name \<mapsto> writeFile_keeps c data)\<rparr>))"

text \<open>\<open>await Filesystem.readFile\<close> from \<open>Directory.Data\<close>; resolves with the data.\<close>

definition Filesystem_readFile :: "env \<Rightarrow> string \<Rightarrow> world \<Rightarrow> error + string" where
  "Filesystem_readFile c name w =
     (case readFile_fault c name of
        Some e \<Rightarrow> Inl e
      | None \<Rightarrow>
          (case dataDir w name of
             None \<Rightarrow> Inl NotFound
           | Some d \<Rightarrow> Inr d))"

text \<open>\<open>await Filesystem.deleteFile\<close> in \<open>Directory.Data\<close>.\<close>

definition Filesystem_deleteFile ::
  "env \<Rightarrow> string \<Rightarrow> world \<Rightarrow> (error + unit) \<times> world" where
  "Filesystem_deleteFile c name w =
     (case deleteFile_fault c of
        Some e \<Rightarrow> (Inl e, w)
      | None \<Rightarrow>
          (case dataDir w name of
             None \<Rightarrow> (Inl NotFound, w)
           | Some d \<Rightarrow> (Inr (), w\<lparr>dataDir := (dataDir w)(name := None)\<rparr>)))"

subsection \<open>The encoding helper\<close>

text \<open>
  \<open>base64FromPath\<close> (lines 24 to 39): the fetch and the blob are awaited, then the
  promise settles with what the reader reports: its error, its string result, or the
  message when the result is not a string.
\<close>

definition base64FromPath :: "env \<Rightarrow> string option \<Rightarrow> error + string" where
  "base64FromPath c p =
     (case fetch_blob c p of
        Inl e \<Rightarrow> Inl e
      | Inr b \<Rightarrow>
          (case readAsDataURL c b of
             OnError e \<Rightarrow> Inl e
           | OnLoad (ResultString s) \<Rightarrow> Inr s
           | OnLoad _ \<Rightarrow> Inl (Message ''method did not return a string'')))"

subsection \<open>The operations of the hook\<close>

text \<open>
  \<open>savePicture\<close> (lines 67 to 100): the payload is read (native) or encoded
  (browser), written under \<open>fileName\<close>, and the record is built from the returned
  uri (native) or from the file name and the capture's \<open>webPath\<close> (browser).
\<close>

definition savePicture ::
  "env \<Rightarrow> Photo \<Rightarrow> string \<Rightarrow> world \<Rightarrow> (error + UserPhoto) \<times> world" where
  "savePicture c photo fileName w =
     (case (if isHybrid c then readFile_path c (path photo)
            else base64FromPath c (webPath photo)) of
        Inl e \<Rightarrow> (Inl e, w)
      | Inr base64Data \<Rightarrow>
          (case Filesystem_writeFile c fileName base64Data w of
             (Inl e, w') \<Rightarrow> (Inl e, w')
           | (Inr uri, w') \<Rightarrow>
               if isHybrid c
               then (Inr \<lparr>filepath = uri, webviewPath = Some (convertFileSrc c uri)\<rparr>, w')
               else (Inr \<lparr>filepath = fileName, webviewPath = webPath photo\<rparr>, w')))"

text \<open>
  \<open>deletePhoto\<close> (lines 102 to 116) up to the call of \<open>Filesystem.deleteFile\<close>:
  the reduced list, the file name handed to the call, and the world in which the
  operation is suspended on its only \<open>await\<close>.
\<close>

definition deletePhoto_suspended ::
  "UserPhoto \<Rightarrow> world \<Rightarrow> UserPhoto list \<times> string \<times> world" where
  "deletePhoto_suspended photo w =
     (let newPhotos = filter (\<lambda>p. filepath p \<noteq> filepath photo) (photos w);
          w1 = Preferences_set PHOTO_STORAGE (JSON_stringify newPhotos) w;
          filename = substr (filepath photo) (lastIndexOf (filepath photo) (CHR ''/'') + 1)
      in (newPhotos, filename, w1))"

text \<open>The whole of \<open>deletePhoto\<close>: \<open>setPhotos\<close> runs after the awaited file delete.\<close>

definition deletePhoto :: "env \<Rightarrow> UserPhoto \<Rightarrow> world \<Rightarrow> (error + unit) \<times> world" where
  "deletePhoto c photo w =
     (case deletePhoto_suspended photo w of
        (newPhotos, filename, w1) \<Rightarrow>
          (case Filesystem_deleteFile c filename w1 of
             (Inl e, w2) \<Rightarrow> (Inl e, w2)
           | (Inr u, w2) \<Rightarrow> (Inr (), setPhotos newPhotos w2)))"

text \<open>
  \<open>takePhoto\<close> (lines 118 to 132): capture, name, save, then \<open>setPhotos\<close> and the
  index write that is not awaited. \<open>photos\<close> is the list the call started with.
\<close>

definition takePhoto :: "env \<Rightarrow> world \<Rightarrow> (error + unit) \<times> world" where
  "takePhoto c w =
     (case Camera_getPhoto c of
        Inl e \<Rightarrow> (Inl e, w)
      | Inr photo \<Rightarrow>
          (let fileName = digits (Date_now c) @ ''.jpeg''
           in case savePicture c photo fileName w of
                (Inl e, w1) \<Rightarrow> (Inl e, w1)
              | (Inr savedFileImage, w1) \<Rightarrow>
                  (let newPhotos = savedFileImage # photos w
                   in (Inr (),
                       Preferences_set PHOTO_STORAGE (JSON_stringify newPhotos)
                         (setPhotos newPhotos w1)))))"

text \<open>The template literal of \<open>loadSaved\<close>, filled with the data of a file.\<close>

definition jpegDataUrl :: "string \<Rightarrow> string" where
  "jpegDataUrl data = ''data:image/jpeg;base64,'' @ data"

text \<open>
  The loop of \<open>loadSaved\<close> on browser platforms: each record in turn gets the data
  URL built from its file; the first read that rejects ends the loop.
\<close>

fun readEach :: "env \<Rightarrow> world \<Rightarrow> UserPhoto list \<Rightarrow> error + UserPhoto list" where
  "readEach c w [] = Inr []"
| "readEach c w (photo # rest) =
     (case Filesystem_readFile c (filepath photo) w of
        Inl e \<Rightarrow> Inl e
      | Inr data \<Rightarrow>
          (case readEach c w rest of
             Inl e \<Rightarrow> Inl e
           | Inr rest' \<Rightarrow>
               Inr (photo\<lparr>webviewPath := Some (jpegDataUrl data)\<rparr> # rest')))"

text \<open>\<open>value ? JSON.parse(value) : []\<close>: \<open>null\<close> and the empty string are falsy.\<close>

definition photosInPreferences :: "string option \<Rightarrow> error + UserPhoto list" where
  "photosInPreferences value =
     (case value of
        None \<Rightarrow> Inr []
      | Some v \<Rightarrow>
          if v = [] then Inr []
          else (case JSON_parse v of None \<Rightarrow> Inl SyntaxError | Some ps \<Rightarrow> Inr ps))"

text \<open>\<open>loadSaved\<close> (lines 150 to 166), run once by the effect of the hook.\<close>

definition loadSaved :: "env \<Rightarrow> world \<Rightarrow> (error + unit) \<times> world" where
  "loadSaved c w =
     (case Preferences_get c PHOTO_STORAGE w of
        Inl e \<Rightarrow> (Inl e, w)
      | Inr value \<Rightarrow>
          (case photosInPreferences value of
             Inl e \<Rightarrow> (Inl e, w)
           | Inr ps \<Rightarrow>
               if \<not> isHybrid c
               then (case readEach c w ps of
                       Inl e \<Rightarrow> (Inl e, w)
                     | Inr ps' \<Rightarrow> (Inr (), setPhotos ps' w))
               else (Inr (), setPhotos ps w)))"

subsection \<open>Concrete hosts and worlds\<close>

text \<open>
  A browser host and a native host on which every call succeeds, and a few worlds; the
  instances below are computed on them.
\<close>

definition jpeg3 :: blob where
  "jpeg3 = \<lparr>blob_type = ''image/jpeg'', blob_bytes = [1, 2, 3]\<rparr>"

definition browser :: env where
  "browser =
     \<lparr>isHybrid = False,
      Camera_getPhoto = Inr \<lparr>path = None, webPath = Some ''blob:http://localhost/7''\<rparr>,
      Date_now = 1700000000123,
      readFile_path = (\<lambda>p. Inl NotFound),
      fetch_blob = (\<lambda>p. Inr jpeg3),
      readAsDataURL = (\<lambda>b. OnLoad (ResultString (dataURL b))),
      writeFile_fault = None,
      writeFile_uri = (\<lambda>name. ''/DATA/'' @ name),
      writeFile_keeps = afterComma,
      readFile_fault = (\<lambda>name. None),
      deleteFile_fault = None,
      get_fault = None,
      convertFileSrc = (\<lambda>uri. uri)\<rparr>"

definition native :: env where
  "native =
     \<lparr>isHybrid = True,
      Camera_getPhoto =
        Inr \<lparr>path = Some ''file:///cache/shot.jpeg'',
             webPath = Some ''http://localhost/_capacitor_file_/cache/shot.jpeg''\<rparr>,
      Date_now = 1700000000456,
      readFile_path = (\<lambda>p. Inr ''AQID''),
      fetch_blob = (\<lambda>p. Inl NetworkError),
      readAsDataURL = (\<lambda>b. OnError ReaderError),
      writeFile_fault = None,
      writeFile_uri = (\<lambda>name. ''file:///data/files/'' @ name),
      writeFile_keeps = (\<lambda>data. data),
      readFile_fault = (\<lambda>name. None),
      deleteFile_fault = None,
      get_fault = None,
      convertFileSrc = (\<lambda>uri. ''http://localhost/_capacitor_file_'' @ drop 7 uri)\<rparr>"

definition fresh :: world where
  "fresh = \<lparr>photos = [], preferences = Map.empty, issued = [], dataDir = Map.empty\<rparr>"

definition photoA :: UserPhoto where
  "photoA =
     \<lparr>filepath = ''file:///data/files/17.jpeg'',
      webviewPath = Some ''http://localhost/_capacitor_file_/data/files/17.jpeg''\<rparr>"

text \<open>One native photo in all three tiers, and the same with its file removed behind the hook's back.\<close>

definition kept :: world where
  "kept =
     \<lparr>photos = [photoA],
      preferences = [PHOTO_STORAGE \<mapsto> JSON_stringify [photoA]],
      issued = [],
      dataDir = [''17.jpeg'' \<mapsto> ''AQID'']\<rparr>"

definition orphaned :: world where
  "orphaned = kept\<lparr>dataDir := Map.empty\<rparr>"

text \<open>
  The browser host with the capture dismissed, and the browser host a little later with
  another capture.
\<close>

definition cancelled :: env where
  "cancelled = browser\<lparr>Camera_getPhoto := Inl UserCancelled\<rparr>"

definition later :: env where
  "later =
     browser\<lparr>Camera_getPhoto := Inr \<lparr>path = None, webPath = Some ''blob:http://localhost/8''\<rparr>,
              Date_now := 1700000000789\<rparr>"

text \<open>The records and the worlds of one and of two captures on the browser host.\<close>

definition photo1 :: UserPhoto where
  "photo1 = \<lparr>filepath = ''1700000000123.jpeg'', webviewPath = Some ''blob:http://localhost/7''\<rparr>"

definition photo2 :: UserPhoto where
  "photo2 = \<lparr>filepath = ''1700000000789.jpeg'', webviewPath = Some ''blob:http://localhost/8''\<rparr>"

definition once :: world where
  "once =
     \<lparr>photos = [photo1],
      preferences = Map.empty,
      issued = [(''photos'', JSON_stringify [photo1])],
      dataDir = [''1700000000123.jpeg'' \<mapsto> ''AQID'']\<rparr>"

definition twice :: world where
  "twice =
     \<lparr>photos = [photo2, photo1],
      preferences = Map.empty,
      issued = [(''photos'', JSON_stringify [photo1]),
                (''photos'', JSON_stringify [photo2, photo1])],
      dataDir = [''1700000000123.jpeg'' \<mapsto> ''AQID'',
                 ''1700000000789.jpeg'' \<mapsto> ''AQID'']\<rparr>"

text \<open>The world after one capture on the browser host, its index write settled, and a reload.\<close>

definition reloaded :: world where
  "reloaded =
     \<lparr>photos = [\<lparr>filepath = ''1700000000123.jpeg'',
                  webviewPath = Some ''data:image/jpeg;base64,AQID''\<rparr>],
      preferences = [''photos'' \<mapsto> JSON_stringify [photo1]],
      issued = [],
      dataDir = [''1700000000123.jpeg'' \<mapsto> ''AQID'']\<rparr>"

text \<open>The world after two captures, both index writes settled, and a reload.\<close>

definition twice_settled :: world where
  "twice_settled =
     twice\<lparr>preferences := [''photos'' \<mapsto> JSON_stringify [photo2, photo1]], issued := []\<rparr>"

definition twice_reloaded :: world where
  "twice_reloaded =
     twice_settled
       \<lparr>photos := [\<lparr>filepath = ''1700000000789.jpeg'',
                     webviewPath = Some ''data:image/jpeg;base64,AQID''\<rparr>,
                    \<lparr>filepath = ''1700000000123.jpeg'',
                     webviewPath = Some ''data:image/jpeg;base64,AQID''\<rparr>]\<rparr>"

text \<open>The native world while a delete of its photo is suspended, and after the delete.\<close>

definition kept_suspended :: world where
  "kept_suspended = kept\<lparr>issued := [(PHOTO_STORAGE, JSON_stringify [])]\<rparr>"

definition kept_deleted :: world where
  "kept_deleted = kept_suspended\<lparr>photos := [], dataDir := Map.empty\<rparr>"

definition orphaned_suspended :: world where
  "orphaned_suspended = orphaned\<lparr>issued := [(PHOTO_STORAGE, JSON_stringify [])]\<rparr>"

text \<open>
  The record and the world of one capture on the native host, and that world with its
  index write settled.
\<close>

definition photoN :: UserPhoto where
  "photoN =
     \<lparr>filepath = ''file:///data/files/1700000000456.jpeg'',
      webviewPath = Some ''http://localhost/_capacitor_file_/data/files/1700000000456.jpeg''\<rparr>"

definition native_once :: world where
  "native_once =
     \<lparr>photos = [photoN],
      preferences = Map.empty,
      issued = [(''photos'', JSON_stringify [photoN])],
      dataDir = [''1700000000456.jpeg'' \<mapsto> ''AQID'']\<rparr>"

definition native_settled :: world where
  "native_settled =
     native_once\<lparr>preferences := [''photos'' \<mapsto> JSON_stringify [photoN]], issued := []\<rparr>"

text \<open>Browser hosts whose file reader fails, or reports something that is not a string.\<close>

definition unreadable :: env where
  "unreadable = browser\<lparr>readAsDataURL := (\<lambda>b. OnError ReaderError)\<rparr>"

definition binary :: env where
  "binary = browser\<lparr>readAsDataURL := (\<lambda>b. OnLoad (ResultArrayBuffer (blob_bytes b)))\<rparr>"

section \<open>Auxiliary facts\<close>

subsection \<open>Parsing what was serialised\<close>

lemma unhex_hexdigit: "n < 16 \<Longrightarrow> unhex (hexdigit n) = Some n"
proof -
  assume "n < 16"
  then have "n \<in> {0, 1, 2, 3, 4, 5, 6, 7, 8, 9, 10, 11, 12, 13, 14, 15}"
    by simp arith
  then show ?thesis
    by (elim insertE emptyE) (simp_all add: hexdigit_def unhex_def)
qed

lemma unicode_escape_low:
  assumes "(of_char c :: nat) < 32"
  shows "unicode_escape (CHR ''0'') (CHR ''0'') (hexdigit (of_char c div 16))
           (hexdigit (of_char c mod 16)) = Some c"
proof -
  have d: "(of_char c :: nat) div 16 < 16"
    using assms by simp
  have "unhex (CHR ''0'') = Some 0"
    by (simp add: unhex_def)
  then show ?thesis
    using d by (simp add: unicode_escape_def unhex_hexdigit)
qed

lemma scan_escape_char:
  "scan (Inside acc) (escape_char c @ rest) = scan (Inside (c # acc)) rest"
proof (cases "(of_char c :: nat) < 32")
  case True
  then have "c \<noteq> dq" and "c \<noteq> bs"
    by auto
  then show ?thesis
    using True by (simp add: escape_char_def unescape_def unicode_escape_low)
next
  case False
  then show ?thesis
    by (auto simp: escape_char_def unescape_def)
qed

lemma scan_chars:
  "scan (Inside acc) (concat (map escape_char s) @ rest) = scan (Inside (rev s @ acc)) rest"
  by (induction s arbitrary: acc) (simp_all add: scan_escape_char)

lemma scan_quoteJSON:
  "scan Outside (quoteJSON s @ rest) = map_option ((#) (Str s)) (scan Outside rest)"
  by (simp add: quoteJSON_def scan_chars)

lemma scan_stringify_photo:
  "scan Outside (stringify_photo p @ rest) =
     map_option ((@) (photo_tokens p)) (scan Outside rest)"
  by (cases "webviewPath p"; cases "scan Outside rest")
     (simp_all add: stringify_photo_def photo_tokens_def scan_quoteJSON)

lemma scan_join_comma:
  "scan Outside (join_comma (map stringify_photo ps) @ rest) =
     map_option ((@) (list_tokens ps)) (scan Outside rest)"
proof (induction ps arbitrary: rest rule: list_tokens.induct)
  case 1
  then show ?case
    by (cases "scan Outside rest") simp_all
next
  case (2 p)
  then show ?case
    by (simp add: scan_stringify_photo)
next
  case (3 p q ps)
  then show ?case
    by (cases "scan Outside rest") (simp_all add: scan_stringify_photo)
qed

lemma object_photo_tokens: "object (photo_tokens p @ r) = Some (p, r)"
  by (cases "webviewPath p")
     (simp_all add: object_def member_def photo_tokens_def photo_of_def)

lemma elements_list_tokens:
  "ps \<noteq> [] \<Longrightarrow> elements (list_tokens ps @ [RBracket]) = Some ps"
  by (induction ps rule: list_tokens.induct)
     (simp_all add: elements.simps [of "photo_tokens p @ r" for p r] object_photo_tokens)

lemma list_tokens_LBrace: "ps \<noteq> [] \<Longrightarrow> \<exists>ts. list_tokens ps = LBrace # ts"
  by (induction ps rule: list_tokens.induct) (simp_all add: photo_tokens_def)

lemma JSON_parse_stringify: "JSON_parse (JSON_stringify ps) = Some ps"
proof (cases "ps = []")
  case True
  then show ?thesis
    by (simp add: JSON_parse_def JSON_stringify_def)
next
  case False
  have l: "scan Outside (JSON_stringify ps) = Some (LBracket # list_tokens ps @ [RBracket])"
    using scan_join_comma [of ps "'']''"] by (simp add: JSON_stringify_def)
  obtain ts where ts: "list_tokens ps = LBrace # ts"
    using False list_tokens_LBrace by blast
  have "JSON_parse (JSON_stringify ps) = elements (list_tokens ps @ [RBracket])"
    by (simp add: JSON_parse_def l ts)
  then show ?thesis
    using False by (simp add: elements_list_tokens)
qed

lemma JSON_stringify_not_empty: "JSON_stringify ps \<noteq> []"
  by (simp add: JSON_stringify_def)

lemma photosInPreferences_stringify:
  "photosInPreferences (Some (JSON_stringify ps)) = Inr ps"
  by (simp add: photosInPreferences_def JSON_stringify_not_empty JSON_parse_stringify)

subsection \<open>The built-ins on examples\<close>

lemma lastIndexOf_examples:
  "lastIndexOf ''a/b/c'' (CHR ''/'') = 3"
  "lastIndexOf ''abc'' (CHR ''/'') = - 1"
  "lastIndexOf [] (CHR ''/'') = - 1"
  by (simp_all add: lastIndexOf_def)

lemma substr_examples:
  "substr ''a/b/c'' 4 = ''c''"
  "substr ''abc'' 0 = ''abc''"
  "substr ''abc/'' 4 = []"
  "substr ''abc'' (- 2) = ''bc''"
  "substr ''abc'' (- 7) = ''abc''"
  "substr ''abc'' 9 = []"
  by (simp_all add: substr_def)

lemma digits_examples:
  "digits 0 = ''0''"
  "digits 7 = ''7''"
  "digits 1700000000123 = ''1700000000123''"
  by (simp_all add: digits.simps digit_def)

lemma base64_examples:
  "base64 [77, 97, 110] = ''TWFu''"
  "base64 [77, 97] = ''TWE=''"
  "base64 [77] = ''TQ==''"
  "base64 [255, 255, 255] = ''////''"
  by (simp_all add: b64_def base64_alphabet_def)

lemma JSON_parse_examples:
  "JSON_parse ''[]'' = Some []"
  "JSON_parse '' [ ] '' = Some []"
  "JSON_parse ''[,]'' = None"
  "JSON_parse ''{}'' = None"
  by (simp_all add: JSON_parse_def elements.simps object_def member_def)

subsection \<open>The last path segment\<close>

lemma substr_lastIndexOf:
  "substr s (lastIndexOf s c + 1) = rev (takeWhile (\<lambda>x. x \<noteq> c) (rev s))"
proof (cases "c \<in> set s")
  case True
  let ?t = "takeWhile (\<lambda>x. x \<noteq> c) (rev s)"
  have le: "length ?t \<le> length s"
    using length_takeWhile_le [of "\<lambda>x. x \<noteq> c" "rev s"] by simp
  have "take (length ?t) (rev s) = ?t"
    by (metis append_eq_conv_conj takeWhile_dropWhile_id)
  then have "drop (length s - length ?t) s = rev ?t"
    by (metis rev_take rev_rev_ident length_rev)
  moreover have "lastIndexOf s c + 1 = int (length s - length ?t)"
    using True le by (simp add: lastIndexOf_def)
  ultimately show ?thesis
    by (simp add: substr_def)
next
  case False
  then have "takeWhile (\<lambda>x. x \<noteq> c) (rev s) = rev s"
    by (intro takeWhile_eq_all_conv [THEN iffD2]) auto
  then have "rev (takeWhile (\<lambda>x. x \<noteq> c) (rev s)) = s"
    by (simp only: rev_rev_ident)
  moreover have "substr s (lastIndexOf s c + 1) = s"
    using False by (simp add: substr_def lastIndexOf_def)
  ultimately show ?thesis
    by (simp only:)
qed

lemma last_segment_no_separator:
  "c \<notin> set (substr s (lastIndexOf s c + 1))"
  by (auto simp: substr_lastIndexOf dest: set_takeWhileD)

lemma last_segment_whole:
  "c \<notin> set s \<Longrightarrow> substr s (lastIndexOf s c + 1) = s"
  by (simp add: substr_def lastIndexOf_def)

lemma last_segment_split:
  assumes "c \<in> set s"
  shows "\<exists>dir. s = dir @ c # substr s (lastIndexOf s c + 1)"
proof -
  let ?P = "\<lambda>x. x \<noteq> c"
  have ne: "dropWhile ?P (rev s) \<noteq> []"
    using assms by (simp add: dropWhile_eq_Nil_conv)
  then have "hd (dropWhile ?P (rev s)) = c"
    using hd_dropWhile [of ?P "rev s"] by simp
  then have d: "dropWhile ?P (rev s) = c # tl (dropWhile ?P (rev s))"
    using ne by (metis list.collapse)
  have "rev s = takeWhile ?P (rev s) @ dropWhile ?P (rev s)"
    by simp
  then have "s = rev (dropWhile ?P (rev s)) @ rev (takeWhile ?P (rev s))"
    by (metis rev_append rev_rev_ident)
  also have "rev (dropWhile ?P (rev s)) = rev (tl (dropWhile ?P (rev s))) @ [c]"
    using d by (metis rev.simps(2))
  finally show ?thesis
    by (auto simp: substr_lastIndexOf)
qed

subsection \<open>What the operations leave behind\<close>

lemma savePicture_rejected:
  "savePicture c photo fileName w = (Inl e, w1) \<Longrightarrow> w1 = w"
  by (auto simp: savePicture_def Filesystem_writeFile_def
           split: sum.splits option.splits if_splits)

lemma savePicture_resolved:
  assumes "savePicture c photo fileName w = (Inr r, w1)"
  shows "\<exists>base64Data.
           (if isHybrid c then readFile_path c (path photo)
            else base64FromPath c (webPath photo)) = Inr base64Data \<and>
           writeFile_fault c = None \<and>
           w1 = w\<lparr>dataDir := (dataDir w)(fileName \<mapsto> writeFile_keeps c base64Data)\<rparr> \<and>
           r = (if isHybrid c
                then \<lparr>filepath = writeFile_uri c fileName,
                      webviewPath = Some (convertFileSrc c (writeFile_uri c fileName))\<rparr>
                else \<lparr>filepath = fileName, webviewPath = webPath photo\<rparr>)"
  using assms
  by (auto simp: savePicture_def Filesystem_writeFile_def
           split: sum.splits option.splits if_splits)

lemma takePhoto_rejected:
  "takePhoto c w = (Inl e, w') \<Longrightarrow> w' = w"
  by (auto simp: takePhoto_def Let_def split: sum.splits prod.splits
           dest: savePicture_rejected)

lemma takePhoto_resolved:
  assumes "takePhoto c w = (Inr u, w')"
  shows "\<exists>photo r w1.
           Camera_getPhoto c = Inr photo \<and>
           savePicture c photo (digits (Date_now c) @ ''.jpeg'') w = (Inr r, w1) \<and>
           w' = Preferences_set PHOTO_STORAGE (JSON_stringify (r # photos w))
                  (setPhotos (r # photos w) w1)"
  using assms
  by (auto simp: takePhoto_def Let_def split: sum.splits prod.splits)

lemma savePicture_photos:
  "savePicture c photo fileName w = (x, w1) \<Longrightarrow>
     photos w1 = photos w \<and> preferences w1 = preferences w \<and> issued w1 = issued w"
  by (cases x) (auto dest: savePicture_rejected savePicture_resolved)

lemma Preferences_get_resolved:
  "Preferences_get c k w = Inr v \<Longrightarrow> get_fault c = None \<and> v = preferences w k"
  by (auto simp: Preferences_get_def split: option.splits)

lemma readEach_resolved:
  "readEach c w ps = Inr ps' \<Longrightarrow>
     list_all2 (\<lambda>p p'. \<exists>d. dataDir w (filepath p) = Some d \<and>
                  p' = p\<lparr>webviewPath := Some (jpegDataUrl d)\<rparr>) ps ps'"
proof (induction ps arbitrary: ps')
  case Nil
  then show ?case by simp
next
  case (Cons p ps)
  then show ?case
    by (auto simp: Filesystem_readFile_def split: sum.splits option.splits)
qed

lemma readEach_all_readable:
  "\<forall>p \<in> set ps. readFile_fault c (filepath p) = None \<and> dataDir w (filepath p) \<noteq> None \<Longrightarrow>
     \<exists>ps'. readEach c w ps = Inr ps'"
  by (induction ps) (auto simp: Filesystem_readFile_def split: sum.splits option.splits)

lemma loadSaved_rejected: "loadSaved c w = (Inl e, w') \<Longrightarrow> w' = w"
  by (auto simp: loadSaved_def split: sum.splits if_splits)

lemma loadSaved_resolved:
  assumes "loadSaved c w = (Inr u, w')"
  shows "\<exists>ps. photosInPreferences (preferences w PHOTO_STORAGE) = Inr ps \<and>
              (if isHybrid c then w' = setPhotos ps w
               else \<exists>ps'. readEach c w ps = Inr ps' \<and> w' = setPhotos ps' w)"
  using assms
  by (auto simp: loadSaved_def split: sum.splits if_splits dest!: Preferences_get_resolved)

lemma loadSaved_materialized:
  assumes "loadSaved c w = (Inr u, w')"
  shows "\<exists>ps. photosInPreferences (preferences w PHOTO_STORAGE) = Inr ps \<and>
              (isHybrid c \<longrightarrow> photos w' = ps) \<and>
              (\<not> isHybrid c \<longrightarrow>
                 list_all2 (\<lambda>p p'. \<exists>d. dataDir w (filepath p) = Some d \<and>
                    p' = p\<lparr>webviewPath := Some (jpegDataUrl d)\<rparr>)
                   ps (photos w'))"
proof -
  obtain ps where
    ps: "photosInPreferences (preferences w PHOTO_STORAGE) = Inr ps" and
    r: "if isHybrid c then w' = setPhotos ps w
        else \<exists>ps'. readEach c w ps = Inr ps' \<and> w' = setPhotos ps' w"
    using loadSaved_resolved [OF assms] by blast
  have "isHybrid c \<longrightarrow> photos w' = ps"
    using r by (auto simp: setPhotos_def)
  moreover have "\<not> isHybrid c \<longrightarrow>
      list_all2 (\<lambda>p p'. \<exists>d. dataDir w (filepath p) = Some d \<and>
         p' = p\<lparr>webviewPath := Some (jpegDataUrl d)\<rparr>) ps (photos w')"
  proof
    assume "\<not> isHybrid c"
    then obtain ps' where e: "readEach c w ps = Inr ps'" and w': "w' = setPhotos ps' w"
      using r by auto
    show "list_all2 (\<lambda>p p'. \<exists>d. dataDir w (filepath p) = Some d \<and>
         p' = p\<lparr>webviewPath := Some (jpegDataUrl d)\<rparr>) ps (photos w')"
      using readEach_resolved [OF e] by (simp add: w' setPhotos_def)
  qed
  ultimately show ?thesis
    using ps by blast
qed

lemma deletePhoto_suspended_eq:
  "deletePhoto_suspended photo w = (newPhotos, filename, w1) \<Longrightarrow>
     newPhotos = filter (\<lambda>p. filepath p \<noteq> filepath photo) (photos w) \<and>
     filename = substr (filepath photo) (lastIndexOf (filepath photo) (CHR ''/'') + 1) \<and>
     w1 = w\<lparr>issued := issued w @ [(PHOTO_STORAGE, JSON_stringify newPhotos)]\<rparr>"
  by (auto simp: deletePhoto_suspended_def Preferences_set_def Let_def)

lemma deletePhoto_outcomes:
  assumes "deletePhoto_suspended photo w = (newPhotos, filename, w1)"
  shows "deletePhoto c photo w =
     (case deleteFile_fault c of
        Some e \<Rightarrow> (Inl e, w1)
      | None \<Rightarrow>
          (case dataDir w filename of
             None \<Rightarrow> (Inl NotFound, w1)
           | Some d \<Rightarrow>
               (Inr (), w1\<lparr>photos := newPhotos, dataDir := (dataDir w)(filename := None)\<rparr>)))"
proof -
  have "dataDir w1 = dataDir w"
    using deletePhoto_suspended_eq [OF assms] by simp
  then show ?thesis
    by (simp add: deletePhoto_def assms Filesystem_deleteFile_def setPhotos_def
          split: option.splits)
qed

lemma settle_all_last:
  "issued w = earlier @ [(k, v)] \<Longrightarrow>
     preferences (settle_all w) k = Some v \<and> issued (settle_all w) = [] \<and>
     photos (settle_all w) = photos w \<and> dataDir (settle_all w) = dataDir w"
proof (induction earlier arbitrary: w)
  case Nil
  then show ?case
    by (simp add: settle_all_def settle_def)
next
  case (Cons x earlier)
  obtain k' v' where x: "x = (k', v')"
    by (cases x)
  let ?w = "settle None w"
  have i: "issued ?w = earlier @ [(k, v)]"
    and p: "photos ?w = photos w" and d: "dataDir ?w = dataDir w"
    using Cons.prems x by (simp_all add: settle_def)
  have "settle_all w = settle_all ?w"
    using Cons.prems i by (simp add: settle_all_def funpow_swap1)
  then show ?case
    using Cons.IH [OF i] p d by simp
qed


subsection \<open>Base64 text and data URLs\<close>

lemma b64_not_colon: "n < 64 \<Longrightarrow> CHR '':'' \<noteq> b64 n"
proof -
  assume n: "n < 64"
  have "length base64_alphabet = 64"
    by (simp add: base64_alphabet_def)
  then have "b64 n \<in> set base64_alphabet"
    unfolding b64_def using n nth_mem [of n base64_alphabet] by simp
  moreover have "CHR '':'' \<notin> set base64_alphabet"
    by (simp add: base64_alphabet_def)
  ultimately show ?thesis
    by metis
qed

lemma unat_byte: "unat (a :: byte) < 256"
  using unsigned_less [of a, where ?'a = nat] by simp

lemma sextets:
  fixes x y :: nat
  assumes "x < 256" and "y < 256"
  shows "x div 4 < 64" and "x mod 4 * 16 < 64" and "x mod 4 * 16 + y div 16 < 64"
    and "x mod 16 * 4 < 64" and "x mod 16 * 4 + y div 64 < 64" and "x mod 64 < 64"
proof -
  show "x div 4 < 64"
    using assms by simp
  show "x mod 4 * 16 < 64" and "x mod 16 * 4 < 64" and "x mod 64 < 64"
    by simp_all
  have "x mod 4 < 4"
    by simp
  then have "x mod 4 * 16 \<le> 48"
    by simp
  moreover have "y div 16 < 16"
    using assms by simp
  ultimately show "x mod 4 * 16 + y div 16 < 64"
    by simp
  have "x mod 16 < 16"
    by simp
  then have "x mod 16 * 4 \<le> 60"
    by simp
  moreover have "y div 64 < 4"
    using assms by simp
  ultimately show "x mod 16 * 4 + y div 64 < 64"
    by simp
qed

lemma base64_no_colon: "CHR '':'' \<notin> set (base64 bytes)"
proof (induction bytes rule: base64.induct)
  case 1
  then show ?case by simp
next
  case (2 a)
  note s = sextets [OF unat_byte [of a] unat_byte [of a], THEN b64_not_colon]
  show ?case
    using s(1,2) by simp
next
  case (3 a b)
  note s = sextets [OF unat_byte [of a] unat_byte [of b], THEN b64_not_colon]
  note t = sextets [OF unat_byte [of b] unat_byte [of b], THEN b64_not_colon]
  show ?case
    using s(1,3) t(4) by simp
next
  case (4 a b c rest)
  note s = sextets [OF unat_byte [of a] unat_byte [of b], THEN b64_not_colon]
  note t = sextets [OF unat_byte [of b] unat_byte [of c], THEN b64_not_colon]
  note u = sextets [OF unat_byte [of c] unat_byte [of c], THEN b64_not_colon]
  show ?case
    using 4 s(1,3) t(5) u(6) by simp
qed

lemma dataURL_not_bare: "dataURL b \<noteq> base64 (blob_bytes b)"
proof
  assume "dataURL b = base64 (blob_bytes b)"
  moreover have "CHR '':'' \<in> set (dataURL b)"
    by (simp add: dataURL_def)
  ultimately show False
    using base64_no_colon [of "blob_bytes b"] by simp
qed

lemma dataURL_scheme: "take 5 (dataURL b) = ''data:''"
  by (simp add: dataURL_def)

lemma position_nth: "distinct xs \<Longrightarrow> n < length xs \<Longrightarrow> position (xs ! n) xs = Some n"
proof (induction xs arbitrary: n)
  case Nil
  then show ?case by simp
next
  case (Cons x xs)
  show ?case
  proof (cases n)
    case 0
    then show ?thesis by simp
  next
    case (Suc m)
    then have "xs ! m \<in> set xs"
      using Cons.prems by simp
    then have "xs ! m \<noteq> x"
      using Cons.prems by auto
    then show ?thesis
      using Suc Cons by simp
  qed
qed

lemma distinct_alphabet: "distinct base64_alphabet"
  by (simp add: base64_alphabet_def)

lemma b64_index_b64: "n < 64 \<Longrightarrow> b64_index (b64 n) = Some n"
  unfolding b64_index_def b64_def
  by (rule position_nth [OF distinct_alphabet]) (simp add: base64_alphabet_def)

lemma b64_in_alphabet: "n < 64 \<Longrightarrow> b64 n \<in> set base64_alphabet"
proof -
  assume n: "n < 64"
  have "length base64_alphabet = 64"
    by (simp add: base64_alphabet_def)
  then show ?thesis
    unfolding b64_def using n nth_mem [of n base64_alphabet] by simp
qed

lemma b64_not_pad: "n < 64 \<Longrightarrow> b64 n \<noteq> CHR ''=''"
  using b64_in_alphabet [of n] by (auto simp: base64_alphabet_def)

lemma b64_not_comma: "n < 64 \<Longrightarrow> CHR '','' \<noteq> b64 n"
  using b64_in_alphabet [of n] by (auto simp: base64_alphabet_def)


lemma regroup:
  fixes x y z :: nat
  assumes "x < 256" and "y < 256" and "z < 256"
  shows "x div 4 * 4 + (x mod 4 * 16) div 16 = x"
    and "x div 4 * 4 + (x mod 4 * 16 + y div 16) div 16 = x"
    and "(x mod 4 * 16 + y div 16) mod 16 * 16 + (y mod 16 * 4) div 4 = y"
    and "(x mod 4 * 16 + y div 16) mod 16 * 16 + (y mod 16 * 4 + z div 64) div 4 = y"
    and "(y mod 16 * 4 + z div 64) mod 4 * 64 + z mod 64 = z"
proof -
  have y16: "y div 16 < 16" and z64: "z div 64 < 4"
    using assms by simp_all
  have a: "(x mod 4 * 16 + y div 16) div 16 = x mod 4"
    using y16 by simp
  have b: "(x mod 4 * 16 + y div 16) mod 16 = y div 16"
    using y16 by simp
  have c: "(y mod 16 * 4 + z div 64) div 4 = y mod 16"
    using z64 by simp
  have d: "(y mod 16 * 4 + z div 64) mod 4 = z div 64"
    using z64 by simp
  show "x div 4 * 4 + (x mod 4 * 16) div 16 = x"
    by simp
  show "x div 4 * 4 + (x mod 4 * 16 + y div 16) div 16 = x"
    unfolding a by simp
  show "(x mod 4 * 16 + y div 16) mod 16 * 16 + (y mod 16 * 4) div 4 = y"
    unfolding b by simp
  show "(x mod 4 * 16 + y div 16) mod 16 * 16 + (y mod 16 * 4 + z div 64) div 4 = y"
    unfolding b c by simp
  show "(y mod 16 * 4 + z div 64) mod 4 * 64 + z mod 64 = z"
    unfolding d by simp
qed

lemma decode_group1:
  assumes "n1 < 64" and "n2 < 64"
  shows "base64_decode [b64 n1, b64 n2, CHR ''='', CHR ''=''] =
           Some [of_nat (n1 * 4 + n2 div 16)]"
  using assms by (simp add: b64_index_b64)

lemma decode_group2:
  assumes "n1 < 64" and "n2 < 64" and "n3 < 64"
  shows "base64_decode [b64 n1, b64 n2, b64 n3, CHR ''=''] =
           Some [of_nat (n1 * 4 + n2 div 16), of_nat (n2 mod 16 * 16 + n3 div 4)]"
  using assms by (simp add: b64_index_b64 b64_not_pad)

lemma decode_group3:
  assumes "n1 < 64" and "n2 < 64" and "n3 < 64" and "n4 < 64"
  shows "base64_decode (b64 n1 # b64 n2 # b64 n3 # b64 n4 # rest) =
           map_option
             (\<lambda>bytes. of_nat (n1 * 4 + n2 div 16) #
                       of_nat (n2 mod 16 * 16 + n3 div 4) #
                       of_nat (n3 mod 4 * 64 + n4) # bytes)
             (base64_decode rest)"
  using assms by (simp add: b64_index_b64 b64_not_pad)

lemma byte_of_unat: "(of_nat (unat a) :: byte) = a"
  by simp

lemma base64_decode_base64: "base64_decode (base64 bytes) = Some bytes"
proof (induction bytes rule: base64.induct)
  case 1
  then show ?case by simp
next
  case (2 a)
  note s = sextets [OF unat_byte [of a] unat_byte [of a]]
  note r = regroup [OF unat_byte [of a] unat_byte [of a] unat_byte [of a]]
  have "base64_decode (base64 [a]) =
          Some [of_nat (unat a div 4 * 4 + (unat a mod 4 * 16) div 16)]"
    unfolding base64.simps by (rule decode_group1 [OF s(1,2)])
  then show ?case
    unfolding r(1) byte_of_unat .
next
  case (3 a b)
  note s = sextets [OF unat_byte [of a] unat_byte [of b]]
  note t = sextets [OF unat_byte [of b] unat_byte [of b]]
  note r = regroup [OF unat_byte [of a] unat_byte [of b] unat_byte [of b]]
  have "base64_decode (base64 [a, b]) =
          Some [of_nat (unat a div 4 * 4 + (unat a mod 4 * 16 + unat b div 16) div 16),
                of_nat ((unat a mod 4 * 16 + unat b div 16) mod 16 * 16 +
                        (unat b mod 16 * 4) div 4)]"
    unfolding base64.simps by (rule decode_group2 [OF s(1,3) t(4)])
  then show ?case
    unfolding r(2,3) byte_of_unat .
next
  case (4 a b c rest)
  note s = sextets [OF unat_byte [of a] unat_byte [of b]]
  note t = sextets [OF unat_byte [of b] unat_byte [of c]]
  note u = sextets [OF unat_byte [of c] unat_byte [of c]]
  note r = regroup [OF unat_byte [of a] unat_byte [of b] unat_byte [of c]]
  have "base64_decode (base64 (a # b # c # rest)) =
          map_option
            (\<lambda>bytes.
               of_nat (unat a div 4 * 4 + (unat a mod 4 * 16 + unat b div 16) div 16) #
               of_nat ((unat a mod 4 * 16 + unat b div 16) mod 16 * 16 +
                       (unat b mod 16 * 4 + unat c div 64) div 4) #
               of_nat ((unat b mod 16 * 4 + unat c div 64) mod 4 * 64 + unat c mod 64) # bytes)
            (base64_decode (base64 rest))"
    unfolding base64.simps append_Cons append_Nil
    by (rule decode_group3 [OF s(1,3) t(5) u(6)])
  then show ?case
    unfolding r(2,4,5) byte_of_unat "4.IH" by simp
qed

lemma base64_no_comma: "CHR '','' \<notin> set (base64 bytes)"
proof (induction bytes rule: base64.induct)
  case 1
  then show ?case by simp
next
  case (2 a)
  note s = sextets [OF unat_byte [of a] unat_byte [of a], THEN b64_not_comma]
  show ?case
    using s(1,2) by simp
next
  case (3 a b)
  note s = sextets [OF unat_byte [of a] unat_byte [of b], THEN b64_not_comma]
  note t = sextets [OF unat_byte [of b] unat_byte [of b], THEN b64_not_comma]
  show ?case
    using s(1,3) t(4) by simp
next
  case (4 a b c rest)
  note s = sextets [OF unat_byte [of a] unat_byte [of b], THEN b64_not_comma]
  note t = sextets [OF unat_byte [of b] unat_byte [of c], THEN b64_not_comma]
  note u = sextets [OF unat_byte [of c] unat_byte [of c], THEN b64_not_comma]
  show ?case
    using 4 s(1,3) t(5) u(6) by simp
qed

lemma afterComma_dataURL:
  assumes "CHR '','' \<notin> set (blob_type b)"
  shows "afterComma (dataURL b) = base64 (blob_bytes b)"
proof -
  let ?P = "\<lambda>x. x \<noteq> CHR '',''"
  let ?head = "''data:'' @ blob_type b @ '';base64''"
  have split: "dataURL b = ?head @ CHR '','' # base64 (blob_bytes b)"
    by (simp add: dataURL_def)
  have "\<forall>x \<in> set ?head. ?P x"
    using assms by auto
  then have "dropWhile ?P (dataURL b) = CHR '','' # base64 (blob_bytes b)"
    unfolding split by (simp add: dropWhile_append2)
  moreover have "takeWhile ?P (base64 (blob_bytes b)) = base64 (blob_bytes b)"
    using base64_no_comma [of "blob_bytes b"]
    by (intro takeWhile_eq_all_conv [THEN iffD2]) auto
  moreover have "CHR '','' \<in> set (dataURL b)"
    by (simp add: split)
  ultimately show ?thesis
    by (simp add: afterComma_def)
qed

lemma afterComma_examples:
  "afterComma ''data:image/jpeg;base64,AQID'' = ''AQID''"
  "afterComma ''AQID'' = ''AQID''"
  "afterComma ''a,b,c'' = ''b''"
  by (simp_all add: afterComma_def)

subsection \<open>Runs on the concrete hosts\<close>

lemmas run_defs =
  takePhoto_def savePicture_def base64FromPath_def Filesystem_writeFile_def
  Filesystem_readFile_def Filesystem_deleteFile_def Preferences_set_def Preferences_get_def
  setPhotos_def settle_def loadSaved_def deletePhoto_def deletePhoto_suspended_def
  browser_def native_def cancelled_def later_def fresh_def kept_def orphaned_def
  once_def twice_def reloaded_def twice_settled_def twice_reloaded_def
  afterComma_def kept_suspended_def kept_deleted_def
  orphaned_suspended_def unreadable_def binary_def photoA_def photoN_def
  native_once_def native_settled_def photo1_def photo2_def jpeg3_def
  PHOTO_STORAGE_def dataURL_def jpegDataUrl_def b64_def base64_alphabet_def digit_def Let_def

lemma takePhoto_browser_fresh: "takePhoto browser fresh = (Inr (), once)"
  by (simp add: run_defs digits.simps)

lemma takePhoto_later_once: "takePhoto later once = (Inr (), twice)"
  by (simp add: run_defs digits.simps)

lemma takePhoto_cancelled: "takePhoto cancelled kept = (Inl UserCancelled, kept)"
  by (simp add: takePhoto_def cancelled_def)

lemma loadSaved_native_kept: "loadSaved native kept = (Inr (), kept)"
  by (simp add: run_defs photosInPreferences_stringify)

lemma settle_once:
  "settle None once = once\<lparr>preferences := [''photos'' \<mapsto> JSON_stringify [photo1]], issued := []\<rparr>"
  by (simp add: settle_def once_def)

lemma loadSaved_browser_once: "loadSaved browser (settle None once) = (Inr (), reloaded)"
  by (simp add: settle_once) (simp add: run_defs photosInPreferences_stringify)


lemma deletePhoto_suspended_kept:
  "deletePhoto_suspended photoA kept = ([], ''17.jpeg'', kept_suspended)"
  by (simp add: deletePhoto_suspended_def Preferences_set_def Let_def photoA_def kept_def
        kept_suspended_def substr_def lastIndexOf_def)

lemma deletePhoto_suspended_orphaned:
  "deletePhoto_suspended photoA orphaned = ([], ''17.jpeg'', orphaned_suspended)"
  by (simp add: deletePhoto_suspended_def Preferences_set_def Let_def photoA_def kept_def
        orphaned_def orphaned_suspended_def substr_def lastIndexOf_def)

lemma deletePhoto_native_orphaned:
  "deletePhoto native photoA orphaned = (Inl NotFound, orphaned_suspended)"
  by (simp add: deletePhoto_def deletePhoto_suspended_orphaned)
     (simp add: Filesystem_deleteFile_def native_def orphaned_def orphaned_suspended_def)

lemma deletePhoto_native_kept:
  "deletePhoto native photoA kept = (Inr (), kept_deleted)"
  by (simp add: deletePhoto_def deletePhoto_suspended_kept)
     (simp add: Filesystem_deleteFile_def native_def kept_def kept_suspended_def
        kept_deleted_def setPhotos_def)

lemma base64_jpeg3: "base64 (blob_bytes jpeg3) = ''AQID''"
  by (simp add: jpeg3_def b64_def base64_alphabet_def)

lemma dataURL_jpeg3: "dataURL jpeg3 = ''data:image/jpeg;base64,AQID''"
  by (simp add: dataURL_def base64_jpeg3) (simp add: jpeg3_def)


lemma base64FromPath_browser:
  "base64FromPath browser (Some ''blob:http://localhost/7'') = Inr ''data:image/jpeg;base64,AQID''"
  by (simp add: base64FromPath_def browser_def dataURL_jpeg3)

lemma savePicture_browser:
  "savePicture browser \<lparr>path = None, webPath = Some ''blob:http://localhost/7''\<rparr>
     ''1700000000123.jpeg'' fresh =
     (Inr photo1, fresh\<lparr>dataDir := [''1700000000123.jpeg'' \<mapsto> ''AQID'']\<rparr>)"
  by (simp add: savePicture_def base64FromPath_browser)
     (simp add: browser_def Filesystem_writeFile_def photo1_def fresh_def afterComma_def)

lemma settle_all_twice: "settle_all twice = twice_settled"
  by (simp add: settle_all_def twice_def twice_settled_def settle_def numeral_2_eq_2)

lemma loadSaved_browser_twice: "loadSaved browser twice_settled = (Inr (), twice_reloaded)"
  by (simp add: loadSaved_def Preferences_get_def PHOTO_STORAGE_def twice_settled_def
        browser_def photosInPreferences_stringify)
     (simp add: run_defs)

lemma takePhoto_native_fresh: "takePhoto native fresh = (Inr (), native_once)"
  by (simp add: run_defs native_once_def photoN_def digits.simps)

lemma settle_native_once: "settle None native_once = native_settled"
  by (simp add: settle_def native_once_def native_settled_def)

lemma loadSaved_native_settled: "loadSaved native native_settled = (Inr (), native_settled)"
  by (simp add: loadSaved_def Preferences_get_def setPhotos_def native_def PHOTO_STORAGE_def
        native_settled_def native_once_def photosInPreferences_stringify)

subsection \<open>The steps at which a capture can fail\<close>

lemma takePhoto_capture_rejected:
  "Camera_getPhoto c = Inl e \<Longrightarrow> takePhoto c w = (Inl e, w)"
  by (simp add: takePhoto_def)

lemma takePhoto_payload_rejected:
  assumes "Camera_getPhoto c = Inr photo"
    and "(if isHybrid c then readFile_path c (path photo)
          else base64FromPath c (webPath photo)) = Inl e"
  shows "takePhoto c w = (Inl e, w)"
  using assms by (simp add: takePhoto_def savePicture_def split: if_splits)

lemma takePhoto_write_rejected:
  assumes "Camera_getPhoto c = Inr photo"
    and "(if isHybrid c then readFile_path c (path photo)
          else base64FromPath c (webPath photo)) = Inr base64Data"
    and "writeFile_fault c = Some e"
  shows "takePhoto c w = (Inl e, w)"
  using assms
  by (simp add: takePhoto_def savePicture_def Filesystem_writeFile_def split: if_splits)

section \<open>The claims\<close>

text \<open>
  C1 (index and memory after a capture), as the claim states it, fails: when
  \<open>takePhoto\<close> resolves on a fresh store, the list holds the new record and the
  Preferences store has no value under \<open>photos\<close> yet, because the
  \<open>Preferences.set\<close> call was made without \<open>await\<close>; if that write then fails,
  the store never gets the value.
\<close>

theorem takePhoto_index_not_written_counterexample:
  "takePhoto browser fresh = (Inr (), once) \<and>
   photos once = [photo1] \<and>
   preferences once PHOTO_STORAGE = None \<and>
   preferences once PHOTO_STORAGE \<noteq> Some (JSON_stringify (photos once)) \<and>
   preferences (settle (Some IOError) once) PHOTO_STORAGE = None"
  using takePhoto_browser_fresh by (simp add: once_def settle_def)

text \<open>
  C1, amended. When \<open>takePhoto\<close> resolves, the in-memory list is the previous list
  with the record that \<open>savePicture\<close> returned prepended, and a write of the serialisation of exactly that list under
  \<open>photos\<close> has been issued and not awaited; the store itself is as before. If no
  earlier write is in flight, the store holds the serialisation of the in-memory list
  once that write completes, and it keeps its old contents if the write fails.
\<close>

theorem takePhoto_issues_index_write:
  assumes "takePhoto c w = (Inr (), w')"
  shows "\<exists>photo r.
           Camera_getPhoto c = Inr photo \<and>
           fst (savePicture c photo (digits (Date_now c) @ ''.jpeg'') w) = Inr r \<and>
           photos w' = r # photos w \<and>
           issued w' = issued w @ [(PHOTO_STORAGE, JSON_stringify (photos w'))] \<and>
           preferences w' = preferences w \<and>
           (issued w = [] \<longrightarrow>
              preferences (settle None w') PHOTO_STORAGE = Some (JSON_stringify (photos w')) \<and>
              photos (settle None w') = photos w' \<and>
              preferences (settle (Some e) w') = preferences w)"
proof -
  obtain photo r w1 where
    g: "Camera_getPhoto c = Inr photo" and
    s: "savePicture c photo (digits (Date_now c) @ ''.jpeg'') w = (Inr r, w1)" and
    w': "w' = Preferences_set PHOTO_STORAGE (JSON_stringify (r # photos w))
                (setPhotos (r # photos w) w1)"
    using takePhoto_resolved [OF assms] by blast
  have k: "preferences w1 = preferences w" "issued w1 = issued w"
    using savePicture_photos [OF s] by simp_all
  show ?thesis
    by (rule exI [of _ photo], rule exI [of _ r])
       (simp add: g s w' k Preferences_set_def setPhotos_def settle_def)
qed

theorem takePhoto_issues_index_write_witness:
  "takePhoto browser fresh = (Inr (), once) \<and>
   Camera_getPhoto browser = Inr \<lparr>path = None, webPath = Some ''blob:http://localhost/7''\<rparr> \<and>
   fst (savePicture browser \<lparr>path = None, webPath = Some ''blob:http://localhost/7''\<rparr>
          ''1700000000123.jpeg'' fresh) = Inr photo1 \<and>
   photos once = [photo1] \<and>
   issued once = [(PHOTO_STORAGE, JSON_stringify [photo1])] \<and>
   issued fresh = [] \<and>
   preferences (settle None once) PHOTO_STORAGE = Some (JSON_stringify [photo1]) \<and>
   preferences (settle (Some IOError) once) = preferences fresh"
proof -
  have a: "photos once = [photo1]"
    by (simp add: once_def)
  have b: "issued once = [(PHOTO_STORAGE, JSON_stringify [photo1])]"
    by (simp add: once_def PHOTO_STORAGE_def)
  have c: "issued fresh = []"
    by (simp add: fresh_def)
  have g: "Camera_getPhoto browser =
             Inr \<lparr>path = None, webPath = Some ''blob:http://localhost/7''\<rparr>"
    by (simp add: browser_def)
  have "preferences (settle None once) PHOTO_STORAGE = Some (JSON_stringify [photo1]) \<and>
        preferences (settle (Some IOError) once) = preferences fresh"
    using takePhoto_issues_index_write [OF takePhoto_browser_fresh, of IOError] a c
    by auto
  then show ?thesis
    using a b c g by (simp add: takePhoto_browser_fresh savePicture_browser)
qed

text \<open>
  C2 (failed capture). A \<open>takePhoto\<close> that rejects leaves the world as it was: the
  in-memory list, the Preferences store, the list of issued index writes and the data
  directory. The lemmas of the previous subsection show that a rejected capture, a
  failed read or encoding of the payload and a failed file write each make it reject.
\<close>

theorem takePhoto_failure_changes_nothing:
  assumes "fst (takePhoto c w) = Inl e"
  shows "snd (takePhoto c w) = w"
  using assms takePhoto_rejected [of c w e "snd (takePhoto c w)"]
  by (cases "takePhoto c w") simp

theorem takePhoto_failure_changes_nothing_witness:
  "fst (takePhoto cancelled kept) = Inl UserCancelled \<and> snd (takePhoto cancelled kept) = kept"
proof -
  have h: "fst (takePhoto cancelled kept) = Inl UserCancelled"
    by (simp add: takePhoto_cancelled)
  show ?thesis
    using h takePhoto_failure_changes_nothing [OF h] by simp
qed

text \<open>
  C3 (delete with the file already gone), as the claim states it, fails: the rejection
  of \<open>Filesystem.deleteFile\<close> ends \<open>deletePhoto\<close>, so the operation rejects with
  \<open>NotFound\<close> and the record is still in the in-memory list.
\<close>

theorem deletePhoto_missing_blob_counterexample:
  "dataDir orphaned ''17.jpeg'' = None \<and>
   photos orphaned = [photoA] \<and>
   fst (deletePhoto native photoA orphaned) = Inl NotFound \<and>
   photos (snd (deletePhoto native photoA orphaned)) = [photoA]"
  by (simp add: deletePhoto_native_orphaned)
     (simp add: orphaned_def orphaned_suspended_def kept_def)

text \<open>
  C3, amended. When the file of the target is absent from the data directory and the
  delete call has no other fault, \<open>deletePhoto\<close> rejects with \<open>NotFound\<close>; the
  in-memory list and the store are as before; the write of the reduced list under
  \<open>photos\<close> has been issued, and if no earlier write is in flight the store holds
  the reduced list once that write completes, while the in-memory list still holds the
  record.
\<close>

theorem deletePhoto_missing_blob:
  assumes "deletePhoto_suspended photo w = (newPhotos, filename, w1)"
    and "deleteFile_fault c = None"
    and "dataDir w filename = None"
  shows "deletePhoto c photo w = (Inl NotFound, w1) \<and>
         photos w1 = photos w \<and>
         preferences w1 = preferences w \<and>
         issued w1 = issued w @ [(PHOTO_STORAGE, JSON_stringify newPhotos)] \<and>
         newPhotos = filter (\<lambda>p. filepath p \<noteq> filepath photo) (photos w) \<and>
         (issued w = [] \<longrightarrow>
            preferences (settle None w1) PHOTO_STORAGE = Some (JSON_stringify newPhotos) \<and>
            photos (settle None w1) = photos w)"
proof -
  note s = deletePhoto_suspended_eq [OF assms(1)]
  have w1: "w1 = w\<lparr>issued := issued w @ [(PHOTO_STORAGE, JSON_stringify newPhotos)]\<rparr>"
    using s by simp
  have "Filesystem_deleteFile c filename w1 = (Inl NotFound, w1)"
    using assms(2,3) by (simp add: Filesystem_deleteFile_def w1)
  then have "deletePhoto c photo w = (Inl NotFound, w1)"
    using assms(1) by (simp add: deletePhoto_def)
  moreover have "issued w = [] \<longrightarrow>
            preferences (settle None w1) PHOTO_STORAGE = Some (JSON_stringify newPhotos) \<and>
            photos (settle None w1) = photos w"
    by (simp add: w1 settle_def)
  ultimately show ?thesis
    using s by (simp add: w1)
qed

theorem deletePhoto_missing_blob_witness:
  "deletePhoto_suspended photoA orphaned = ([], ''17.jpeg'', orphaned_suspended) \<and>
   deleteFile_fault native = None \<and> dataDir orphaned ''17.jpeg'' = None \<and>
   issued orphaned = [] \<and> photos orphaned = [photoA] \<and>
   deletePhoto native photoA orphaned = (Inl NotFound, orphaned_suspended) \<and>
   photos orphaned_suspended = [photoA] \<and>
   preferences (settle None orphaned_suspended) PHOTO_STORAGE = Some (JSON_stringify [])"
proof -
  have f: "deleteFile_fault native = None"
    by (simp add: native_def)
  have d: "dataDir orphaned ''17.jpeg'' = None"
    by (simp add: orphaned_def)
  have i: "issued orphaned = []" and p: "photos orphaned = [photoA]"
    by (simp_all add: orphaned_def kept_def)
  show ?thesis
    using deletePhoto_missing_blob [OF deletePhoto_suspended_orphaned f d]
    by (simp add: deletePhoto_suspended_orphaned f d i p)
qed

text \<open>
  C4 (order of the updates in a delete), as the claim states it, fails: where
  \<open>deletePhoto\<close> is suspended on the file delete, the in-memory list still holds the
  target.
\<close>

theorem deletePhoto_memory_at_suspension_counterexample:
  "deletePhoto_suspended photoA kept = ([], ''17.jpeg'', kept_suspended) \<and>
   photos kept_suspended = [photoA] \<and>
   photos kept_suspended \<noteq> []"
  by (simp add: deletePhoto_suspended_kept) (simp add: kept_suspended_def kept_def)

text \<open>
  C4, amended. Where \<open>deletePhoto\<close> is suspended on the file delete, the write of the
  reduced list under \<open>photos\<close> has been issued, the data directory is untouched and
  the in-memory list is still the list before the call. The in-memory list becomes the
  reduced list only if the file delete resolves; if it rejects, the list stays as it was.
\<close>

theorem deletePhoto_at_suspension:
  assumes "deletePhoto_suspended photo w = (newPhotos, filename, w1)"
  shows "newPhotos = filter (\<lambda>p. filepath p \<noteq> filepath photo) (photos w) \<and>
         issued w1 = issued w @ [(PHOTO_STORAGE, JSON_stringify newPhotos)] \<and>
         photos w1 = photos w \<and>
         dataDir w1 = dataDir w \<and>
         (\<forall>w2. deletePhoto c photo w = (Inr (), w2) \<longrightarrow> photos w2 = newPhotos) \<and>
         (\<forall>e w2. deletePhoto c photo w = (Inl e, w2) \<longrightarrow> photos w2 = photos w)"
proof (intro conjI)
  note s = deletePhoto_suspended_eq [OF assms]
  note d = deletePhoto_outcomes [OF assms, of c]
  have w1: "w1 = w\<lparr>issued := issued w @ [(PHOTO_STORAGE, JSON_stringify newPhotos)]\<rparr>"
    using s by simp
  show "newPhotos = filter (\<lambda>p. filepath p \<noteq> filepath photo) (photos w)"
    using s by simp
  show "issued w1 = issued w @ [(PHOTO_STORAGE, JSON_stringify newPhotos)]"
    by (simp add: w1)
  show "photos w1 = photos w"
    by (simp add: w1)
  show "dataDir w1 = dataDir w"
    by (simp add: w1)
  show "\<forall>w2. deletePhoto c photo w = (Inr (), w2) \<longrightarrow> photos w2 = newPhotos"
    unfolding d by (auto split: option.splits)
  show "\<forall>e w2. deletePhoto c photo w = (Inl e, w2) \<longrightarrow> photos w2 = photos w"
    unfolding d by (auto simp: w1 split: option.splits)
qed

theorem deletePhoto_at_suspension_witness:
  "deletePhoto_suspended photoA kept = ([], ''17.jpeg'', kept_suspended) \<and>
   photos kept = [photoA] \<and>
   issued kept_suspended = issued kept @ [(PHOTO_STORAGE, JSON_stringify [])] \<and>
   photos kept_suspended = photos kept \<and>
   deletePhoto native photoA kept = (Inr (), kept_deleted) \<and>
   photos kept_deleted = []"
proof -
  note t = deletePhoto_at_suspension [OF deletePhoto_suspended_kept, of native]
  have a: "photos kept = [photoA]"
    by (simp add: kept_def)
  have b: "issued kept_suspended = issued kept @ [(PHOTO_STORAGE, JSON_stringify [])]"
    and c: "photos kept_suspended = photos kept"
    and d: "\<forall>w2. deletePhoto native photoA kept = (Inr (), w2) \<longrightarrow> photos w2 = []"
    using t by blast+
  have e: "photos kept_deleted = []"
    using d deletePhoto_native_kept by blast
  show ?thesis
    using a b c e deletePhoto_suspended_kept deletePhoto_native_kept by blast
qed

text \<open>
  C5 (display path after a load), as the claim states it, fails on native platforms:
  after a capture on the native host and the completion of its index write, the reload
  brings the record back with the \<open>webviewPath\<close> that the capture stored in the
  index, not without one.
\<close>

theorem loadSaved_native_keeps_webviewPath_counterexample:
  "isHybrid native \<and>
   takePhoto native fresh = (Inr (), native_once) \<and>
   settle None native_once = native_settled \<and>
   loadSaved native native_settled = (Inr (), native_settled) \<and>
   map webviewPath (photos native_settled) =
     [Some ''http://localhost/_capacitor_file_/data/files/1700000000456.jpeg'']"
  by (simp add: takePhoto_native_fresh settle_native_once loadSaved_native_settled)
     (simp add: native_def native_settled_def native_once_def photoN_def)


text \<open>
  C5, amended. When \<open>loadSaved\<close> resolves, the in-memory list is built from the
  records \<open>ps\<close> parsed from the index. On native platforms it is \<open>ps\<close> itself, each
  record with the \<open>webviewPath\<close> stored in the index (absent only if absent there).
  On browser platforms every record keeps its \<open>filepath\<close> and gets as
  \<open>webviewPath\<close> the text \<open>data:image/jpeg;base64,\<close> followed by the data read from
  its file, whatever the index held.
\<close>

theorem loadSaved_webviewPath:
  assumes "loadSaved c w = (Inr (), w')"
  shows "\<exists>ps. photosInPreferences (preferences w PHOTO_STORAGE) = Inr ps \<and>
              (isHybrid c \<longrightarrow> photos w' = ps) \<and>
              (\<not> isHybrid c \<longrightarrow>
                 list_all2 (\<lambda>p p'. \<exists>d. dataDir w (filepath p) = Some d \<and>
                    p' = p\<lparr>webviewPath := Some (jpegDataUrl d)\<rparr>)
                   ps (photos w'))"
  using assms by (rule loadSaved_materialized)

theorem loadSaved_webviewPath_witness:
  "loadSaved native kept = (Inr (), kept) \<and> isHybrid native \<and>
   photosInPreferences (preferences kept PHOTO_STORAGE) = Inr [photoA] \<and>
   photos kept = [photoA] \<and>
   loadSaved browser (settle None once) = (Inr (), reloaded) \<and> \<not> isHybrid browser \<and>
   photosInPreferences (preferences (settle None once) PHOTO_STORAGE) = Inr [photo1] \<and>
   dataDir (settle None once) (filepath photo1) = Some ''AQID'' \<and>
   photos reloaded =
     [photo1\<lparr>webviewPath := Some (jpegDataUrl ''AQID'')\<rparr>]"
proof -
  have "isHybrid native" and "\<not> isHybrid browser"
    by (simp_all add: native_def browser_def)
  moreover have "photosInPreferences (preferences kept PHOTO_STORAGE) = Inr [photoA]"
    and "photos kept = [photoA]"
    by (simp_all add: kept_def photosInPreferences_stringify)
  moreover have
    "photosInPreferences (preferences (settle None once) PHOTO_STORAGE) = Inr [photo1]"
    by (simp add: settle_once PHOTO_STORAGE_def photosInPreferences_stringify)
  moreover have
    "dataDir (settle None once) (filepath photo1) = Some ''AQID''"
    unfolding settle_once by (simp add: once_def photo1_def)
  moreover have "photos reloaded =
     [photo1\<lparr>webviewPath := Some (jpegDataUrl ''AQID'')\<rparr>]"
    by (simp add: reloaded_def photo1_def jpegDataUrl_def)
  ultimately show ?thesis
    using loadSaved_webviewPath [OF loadSaved_native_kept]
      loadSaved_webviewPath [OF loadSaved_browser_once]
    by (simp add: loadSaved_native_kept loadSaved_browser_once)
qed

text \<open>
  C6 (round trip on the browser platform). Take a capture whose fetched body is the blob
  \<open>b\<close>, a file reader that follows the File API, and the browser's data directory,
  which keeps what follows the comma of the data URL it is handed (the type of \<open>b\<close>
  has no comma). Then \<open>takePhoto\<close> resolves, from any list, and the file named by the
  time stamp and \<open>.jpeg\<close> holds exactly the base64 encoding of the bytes of \<open>b\<close>.
  Once the index writes issued so far have completed, \<open>loadSaved\<close> on a browser host
  that can read this file and the files of the earlier records resolves: its first
  record has that name as \<open>filepath\<close> and \<open>data:image/jpeg;base64,\<close> followed by
  the base64 encoding of the bytes as \<open>webviewPath\<close>, the earlier records follow in
  their order, and the encoded text decodes back to the bytes of \<open>b\<close>.
\<close>

theorem browser_round_trip:
  assumes "\<not> isHybrid c"
    and "Camera_getPhoto c = Inr photo"
    and "fetch_blob c (webPath photo) = Inr b"
    and "readAsDataURL c b = OnLoad (ResultString (dataURL b))"
    and "CHR '','' \<notin> set (blob_type b)"
    and "writeFile_fault c = None"
    and "writeFile_keeps c (dataURL b) = afterComma (dataURL b)"
    and "\<not> isHybrid c'"
    and "get_fault c' = None"
    and "readFile_fault c' (digits (Date_now c) @ ''.jpeg'') = None"
    and "\<forall>p \<in> set (photos w).
           readFile_fault c' (filepath p) = None \<and> dataDir w (filepath p) \<noteq> None"
  shows "\<exists>w1 w2 rest.
           takePhoto c w = (Inr (), w1) \<and>
           dataDir w1 (digits (Date_now c) @ ''.jpeg'') = Some (base64 (blob_bytes b)) \<and>
           loadSaved c' (settle_all w1) = (Inr (), w2) \<and>
           photos w2 =
             \<lparr>filepath = digits (Date_now c) @ ''.jpeg'',
              webviewPath = Some (''data:image/jpeg;base64,'' @ base64 (blob_bytes b))\<rparr> # rest \<and>
           map filepath rest = map filepath (photos w) \<and>
           base64_decode (base64 (blob_bytes b)) = Some (blob_bytes b)"
proof -
  let ?name = "digits (Date_now c) @ ''.jpeg''"
  let ?payload = "base64 (blob_bytes b)"
  let ?r = "\<lparr>filepath = ?name, webviewPath = webPath photo\<rparr>"
  let ?w0 = "w\<lparr>dataDir := (dataDir w)(?name \<mapsto> ?payload)\<rparr>"
  let ?ps = "?r # photos w"
  let ?w1 = "Preferences_set PHOTO_STORAGE (JSON_stringify ?ps) (setPhotos ?ps ?w0)"
  let ?s = "settle_all ?w1"
  let ?R = "\<lambda>p p'. \<exists>d. dataDir ?s (filepath p) = Some d \<and>
              p' = p\<lparr>webviewPath := Some (jpegDataUrl d)\<rparr>"
  have enc: "base64FromPath c (webPath photo) = Inr (dataURL b)"
    using assms(3,4) by (simp add: base64FromPath_def)
  have keep: "writeFile_keeps c (dataURL b) = ?payload"
    using assms(5,7) by (simp add: afterComma_dataURL)
  have save: "savePicture c photo ?name w = (Inr ?r, ?w0)"
    using assms(1,6) enc keep by (simp add: savePicture_def Filesystem_writeFile_def)
  have take: "takePhoto c w = (Inr (), ?w1)"
    using assms(2) save by (simp add: takePhoto_def Let_def)
  have blob: "dataDir ?w1 ?name = Some ?payload"
    by (simp add: Preferences_set_def setPhotos_def)
  have "issued ?w1 = issued w @ [(PHOTO_STORAGE, JSON_stringify ?ps)]"
    by (simp add: Preferences_set_def setPhotos_def)
  from settle_all_last [OF this]
  have pref: "preferences ?s PHOTO_STORAGE = Some (JSON_stringify ?ps)"
    and dir: "dataDir ?s = (dataDir w)(?name \<mapsto> ?payload)"
    by (simp_all add: Preferences_set_def setPhotos_def)
  have get: "Preferences_get c' PHOTO_STORAGE ?s = Inr (Some (JSON_stringify ?ps))"
    using assms(9) pref by (simp add: Preferences_get_def)
  have "\<forall>p \<in> set ?ps. readFile_fault c' (filepath p) = None \<and> dataDir ?s (filepath p) \<noteq> None"
    using assms(10,11) by (simp add: dir)
  then obtain ps' where read: "readEach c' ?s ?ps = Inr ps'"
    using readEach_all_readable [of ?ps c' ?s] by blast
  have load: "loadSaved c' ?s = (Inr (), setPhotos ps' ?s)"
    using assms(8) get read by (simp add: loadSaved_def photosInPreferences_stringify)
  have rel: "list_all2 ?R ?ps ps'"
    using readEach_resolved [OF read] .
  then obtain l rest where ps': "ps' = l # rest" and l: "?R ?r l"
    and rest: "list_all2 ?R (photos w) rest"
    by (auto simp: list_all2_Cons1)
  have "l = \<lparr>filepath = ?name, webviewPath = Some (jpegDataUrl ?payload)\<rparr>"
    using l by (simp add: dir)
  then have head: "l = \<lparr>filepath = ?name,
                          webviewPath = Some (''data:image/jpeg;base64,'' @ ?payload)\<rparr>"
    unfolding jpegDataUrl_def .
  have "list_all2 (\<lambda>p p'. filepath p' = filepath p) (photos w) rest"
    using rest by (rule list_all2_mono) auto
  then have order: "map filepath rest = map filepath (photos w)"
    by (induction rule: list_all2_induct) simp_all
  have "photos (setPhotos ps' ?s) = l # rest"
    by (simp add: setPhotos_def ps')
  then show ?thesis
    using take blob load head order base64_decode_base64 [of "blob_bytes b"] by blast
qed

theorem browser_round_trip_witness:
  "\<not> isHybrid later \<and>
   Camera_getPhoto later = Inr \<lparr>path = None, webPath = Some ''blob:http://localhost/8''\<rparr> \<and>
   fetch_blob later (Some ''blob:http://localhost/8'') = Inr jpeg3 \<and>
   readAsDataURL later jpeg3 = OnLoad (ResultString (dataURL jpeg3)) \<and>
   CHR '','' \<notin> set (blob_type jpeg3) \<and>
   writeFile_fault later = None \<and>
   writeFile_keeps later (dataURL jpeg3) = afterComma (dataURL jpeg3) \<and>
   \<not> isHybrid browser \<and> get_fault browser = None \<and>
   readFile_fault browser ''1700000000789.jpeg'' = None \<and>
   photos once = [photo1] \<and> readFile_fault browser (filepath photo1) = None \<and>
   dataDir once (filepath photo1) = Some ''AQID'' \<and>
   digits (Date_now later) @ ''.jpeg'' = ''1700000000789.jpeg'' \<and>
   base64 (blob_bytes jpeg3) = ''AQID'' \<and>
   takePhoto later once = (Inr (), twice) \<and>
   dataDir twice ''1700000000789.jpeg'' = Some ''AQID'' \<and>
   loadSaved browser (settle_all twice) = (Inr (), twice_reloaded) \<and>
   map filepath (photos twice_reloaded) = [''1700000000789.jpeg'', ''1700000000123.jpeg''] \<and>
   (\<exists>w1 w2 rest.
      takePhoto later once = (Inr (), w1) \<and>
      dataDir w1 ''1700000000789.jpeg'' = Some ''AQID'' \<and>
      loadSaved browser (settle_all w1) = (Inr (), w2) \<and>
      photos w2 =
        \<lparr>filepath = ''1700000000789.jpeg'',
         webviewPath = Some (''data:image/jpeg;base64,'' @ ''AQID'')\<rparr> # rest \<and>
      map filepath rest = map filepath (photos once) \<and>
      base64_decode ''AQID'' = Some (blob_bytes jpeg3))"
proof -
  let ?photo = "\<lparr>path = None, webPath = Some ''blob:http://localhost/8''\<rparr>"
  have h: "\<not> isHybrid later"
    and g: "Camera_getPhoto later = Inr ?photo"
    and f: "fetch_blob later (webPath ?photo) = Inr jpeg3"
    and r: "readAsDataURL later jpeg3 = OnLoad (ResultString (dataURL jpeg3))"
    and wf: "writeFile_fault later = None"
    and k: "writeFile_keeps later (dataURL jpeg3) = afterComma (dataURL jpeg3)"
    by (simp_all add: later_def browser_def)
  have t: "CHR '','' \<notin> set (blob_type jpeg3)"
    by (simp add: jpeg3_def)
  have hb: "\<not> isHybrid browser" and gf: "get_fault browser = None"
    by (simp_all add: browser_def)
  have n: "digits (Date_now later) @ ''.jpeg'' = ''1700000000789.jpeg''"
    by (simp add: later_def browser_def digits.simps digit_def)
  have rf: "readFile_fault browser (digits (Date_now later) @ ''.jpeg'') = None"
    by (simp add: browser_def)
  have p: "photos once = [photo1]"
    and d: "dataDir once (filepath photo1) = Some ''AQID''"
    by (simp_all add: once_def photo1_def)
  have rp: "readFile_fault browser (filepath photo1) = None"
    by (simp add: browser_def)
  have old: "\<forall>p \<in> set (photos once).
      readFile_fault browser (filepath p) = None \<and> dataDir once (filepath p) \<noteq> None"
    by (simp add: p d rp)
  note c6 = browser_round_trip [OF h g f r t wf k hb gf rf old]
  have e: "\<exists>w1 w2 rest.
      takePhoto later once = (Inr (), w1) \<and>
      dataDir w1 ''1700000000789.jpeg'' = Some ''AQID'' \<and>
      loadSaved browser (settle_all w1) = (Inr (), w2) \<and>
      photos w2 =
        \<lparr>filepath = ''1700000000789.jpeg'',
         webviewPath = Some (''data:image/jpeg;base64,'' @ ''AQID'')\<rparr> # rest \<and>
      map filepath rest = map filepath (photos once) \<and>
      base64_decode ''AQID'' = Some (blob_bytes jpeg3)"
    using c6 unfolding n base64_jpeg3 .
  have dt: "dataDir twice ''1700000000789.jpeg'' = Some ''AQID''"
    by (simp add: twice_def)
  have m: "map filepath (photos twice_reloaded) =
             [''1700000000789.jpeg'', ''1700000000123.jpeg'']"
    by (simp add: twice_reloaded_def)
  have rf': "readFile_fault browser ''1700000000789.jpeg'' = None"
    by (simp add: browser_def)
  show ?thesis
    using h g f r t wf k hb gf rf' p rp d n base64_jpeg3 takePhoto_later_once dt m e
    by (simp add: settle_all_twice loadSaved_browser_twice)
qed

text \<open>
  C7 (ordering). After two captures that both resolve, the in-memory list is the record
  of the second, then the record of the first, then the list before the first; each
  record has the file path made from the time stamp of its own capture. When
  \<open>loadSaved\<close> resolves, the file paths of the in-memory list are those of the
  records parsed from the index, in the same order.
\<close>

theorem captures_prepend_and_load_keeps_order:
  "(takePhoto c1 w = (Inr (), w1) \<and> takePhoto c2 w1 = (Inr (), w2) \<longrightarrow>
      (\<exists>r1 r2. photos w1 = r1 # photos w \<and> photos w2 = r2 # r1 # photos w \<and>
         filepath r1 = (if isHybrid c1 then writeFile_uri c1 (digits (Date_now c1) @ ''.jpeg'')
                        else digits (Date_now c1) @ ''.jpeg'') \<and>
         filepath r2 = (if isHybrid c2 then writeFile_uri c2 (digits (Date_now c2) @ ''.jpeg'')
                        else digits (Date_now c2) @ ''.jpeg''))) \<and>
   (loadSaved c v = (Inr (), v') \<longrightarrow>
      (\<exists>ps. photosInPreferences (preferences v PHOTO_STORAGE) = Inr ps \<and>
         map filepath (photos v') = map filepath ps))"
proof (intro conjI impI)
  assume t: "takePhoto c1 w = (Inr (), w1) \<and> takePhoto c2 w1 = (Inr (), w2)"
  obtain photo r1 u1 where
    s1: "savePicture c1 photo (digits (Date_now c1) @ ''.jpeg'') w = (Inr r1, u1)" and
    w1: "w1 = Preferences_set PHOTO_STORAGE (JSON_stringify (r1 # photos w))
                (setPhotos (r1 # photos w) u1)"
    using t takePhoto_resolved [of c1 w "()" w1] by blast
  obtain photo' r2 u2 where
    s2: "savePicture c2 photo' (digits (Date_now c2) @ ''.jpeg'') w1 = (Inr r2, u2)" and
    w2: "w2 = Preferences_set PHOTO_STORAGE (JSON_stringify (r2 # photos w1))
                (setPhotos (r2 # photos w1) u2)"
    using t takePhoto_resolved [of c2 w1 "()" w2] by blast
  have p1: "photos w1 = r1 # photos w"
    by (simp add: w1 Preferences_set_def setPhotos_def)
  have p2: "photos w2 = r2 # r1 # photos w"
    by (simp add: w2 p1 Preferences_set_def setPhotos_def)
  have f1: "filepath r1 = (if isHybrid c1 then writeFile_uri c1 (digits (Date_now c1) @ ''.jpeg'')
                        else digits (Date_now c1) @ ''.jpeg'')"
    using savePicture_resolved [OF s1] by auto
  have f2: "filepath r2 = (if isHybrid c2 then writeFile_uri c2 (digits (Date_now c2) @ ''.jpeg'')
                        else digits (Date_now c2) @ ''.jpeg'')"
    using savePicture_resolved [OF s2] by auto
  show "\<exists>r1 r2. photos w1 = r1 # photos w \<and> photos w2 = r2 # r1 # photos w \<and>
         filepath r1 = (if isHybrid c1 then writeFile_uri c1 (digits (Date_now c1) @ ''.jpeg'')
                        else digits (Date_now c1) @ ''.jpeg'') \<and>
         filepath r2 = (if isHybrid c2 then writeFile_uri c2 (digits (Date_now c2) @ ''.jpeg'')
                        else digits (Date_now c2) @ ''.jpeg'')"
    using p1 p2 f1 f2 by blast
next
  assume l: "loadSaved c v = (Inr (), v')"
  obtain ps where
    ps: "photosInPreferences (preferences v PHOTO_STORAGE) = Inr ps" and
    h: "isHybrid c \<longrightarrow> photos v' = ps" and
    b: "\<not> isHybrid c \<longrightarrow>
          list_all2 (\<lambda>p p'. \<exists>d. dataDir v (filepath p) = Some d \<and>
             p' = p\<lparr>webviewPath := Some (jpegDataUrl d)\<rparr>) ps (photos v')"
    using loadSaved_materialized [OF l] by blast
  have "map filepath (photos v') = map filepath ps"
  proof (cases "isHybrid c")
    case True
    then show ?thesis
      using h by simp
  next
    case False
    then have "list_all2 (\<lambda>p p'. filepath p' = filepath p) ps (photos v')"
      using b by (auto elim!: list_all2_mono)
    then show ?thesis
      by (induction rule: list_all2_induct) simp_all
  qed
  then show "\<exists>ps. photosInPreferences (preferences v PHOTO_STORAGE) = Inr ps \<and>
         map filepath (photos v') = map filepath ps"
    using ps by blast
qed

theorem captures_prepend_and_load_keeps_order_witness:
  "takePhoto browser fresh = (Inr (), once) \<and> takePhoto later once = (Inr (), twice) \<and>
   photos fresh = [] \<and> photos once = [photo1] \<and> photos twice = [photo2, photo1] \<and>
   loadSaved native kept = (Inr (), kept) \<and>
   photosInPreferences (preferences kept PHOTO_STORAGE) = Inr [photoA] \<and>
   map filepath (photos kept) = map filepath [photoA] \<and>
   loadSaved browser twice_settled = (Inr (), twice_reloaded) \<and>
   photosInPreferences (preferences twice_settled PHOTO_STORAGE) = Inr [photo2, photo1] \<and>
   map filepath (photos twice_reloaded) = map filepath [photo2, photo1]"
proof -
  have "photos fresh = []" and "photos once = [photo1]" and "photos twice = [photo2, photo1]"
    by (simp_all add: fresh_def once_def twice_def)
  moreover have "photosInPreferences (preferences kept PHOTO_STORAGE) = Inr [photoA]"
    by (simp add: kept_def photosInPreferences_stringify)
  moreover have
    "photosInPreferences (preferences twice_settled PHOTO_STORAGE) = Inr [photo2, photo1]"
    by (simp add: twice_settled_def PHOTO_STORAGE_def photosInPreferences_stringify)
  ultimately show ?thesis
    using captures_prepend_and_load_keeps_order
            [of browser fresh once later twice native kept kept]
      captures_prepend_and_load_keeps_order
            [of browser fresh once later twice browser twice_settled twice_reloaded]
    by (simp add: takePhoto_browser_fresh takePhoto_later_once loadSaved_native_kept
          loadSaved_browser_twice)
qed

text \<open>
  C8 (empty start). When \<open>Preferences.get\<close> finds no value under \<open>photos\<close>,
  \<open>loadSaved\<close> resolves, on either platform, and the in-memory list becomes the empty
  list; nothing else in the world changes.
\<close>

theorem loadSaved_empty_start:
  assumes "Preferences_get c PHOTO_STORAGE w = Inr None"
  shows "loadSaved c w = (Inr (), w\<lparr>photos := []\<rparr>)"
  using assms by (simp add: loadSaved_def photosInPreferences_def setPhotos_def)

theorem loadSaved_empty_start_witness:
  "Preferences_get browser PHOTO_STORAGE fresh = Inr None \<and>
   loadSaved browser fresh = (Inr (), fresh\<lparr>photos := []\<rparr>)"
proof -
  have h: "Preferences_get browser PHOTO_STORAGE fresh = Inr None"
    by (simp add: Preferences_get_def browser_def fresh_def)
  show ?thesis
    using h loadSaved_empty_start [OF h] by simp
qed

text \<open>
  C9 (name of the deleted file). \<open>deletePhoto\<close> hands \<open>Filesystem.deleteFile\<close> the
  name computed from the target's \<open>filepath\<close>, and the outcome and the data directory
  of the operation are those of that call. The name is the last path segment: it
  contains no \<open>/\<close>; it is the whole \<open>filepath\<close> when that contains no \<open>/\<close>, and
  otherwise the \<open>filepath\<close> is some directory part, a \<open>/\<close>, and the name.
\<close>

theorem deletePhoto_deletes_last_segment:
  assumes "deletePhoto_suspended photo w = (newPhotos, filename, w1)"
  shows "fst (deletePhoto c photo w) = fst (Filesystem_deleteFile c filename w1) \<and>
         dataDir (snd (deletePhoto c photo w)) =
           dataDir (snd (Filesystem_deleteFile c filename w1)) \<and>
         CHR ''/'' \<notin> set filename \<and>
         (CHR ''/'' \<notin> set (filepath photo) \<longrightarrow> filename = filepath photo) \<and>
         (CHR ''/'' \<in> set (filepath photo) \<longrightarrow>
            (\<exists>dir. filepath photo = dir @ ''/'' @ filename))"
proof -
  have name: "filename = substr (filepath photo) (lastIndexOf (filepath photo) (CHR ''/'') + 1)"
    using assms by (auto simp: deletePhoto_suspended_def Let_def)
  have "fst (deletePhoto c photo w) = fst (Filesystem_deleteFile c filename w1)"
    and "dataDir (snd (deletePhoto c photo w)) =
           dataDir (snd (Filesystem_deleteFile c filename w1))"
    using assms
    by (auto simp: deletePhoto_def setPhotos_def split: prod.splits sum.splits)
  moreover have "CHR ''/'' \<notin> set filename"
    unfolding name by (rule last_segment_no_separator)
  moreover have "CHR ''/'' \<notin> set (filepath photo) \<longrightarrow> filename = filepath photo"
    unfolding name by (simp add: last_segment_whole)
  moreover have "CHR ''/'' \<in> set (filepath photo) \<longrightarrow>
      (\<exists>dir. filepath photo = dir @ ''/'' @ filename)"
    unfolding name using last_segment_split [of "CHR ''/''" "filepath photo"] by simp
  ultimately show ?thesis
    by blast
qed

theorem deletePhoto_deletes_last_segment_witness:
  "deletePhoto_suspended photoA kept = ([], ''17.jpeg'', kept_suspended) \<and>
   CHR ''/'' \<in> set (filepath photoA) \<and>
   (\<exists>dir. filepath photoA = dir @ ''/'' @ ''17.jpeg'') \<and>
   fst (deletePhoto native photoA kept) =
     fst (Filesystem_deleteFile native ''17.jpeg'' kept_suspended) \<and>
   deletePhoto_suspended photo1 once =
     ([], ''1700000000123.jpeg'',
      once\<lparr>issued := issued once @ [(PHOTO_STORAGE, JSON_stringify [])]\<rparr>) \<and>
   CHR ''/'' \<notin> set (filepath photo1) \<and>
   filepath photo1 = ''1700000000123.jpeg''"
proof -
  have a: "CHR ''/'' \<in> set (filepath photoA)"
    by (simp add: photoA_def)
  have h: "deletePhoto_suspended photo1 once =
     ([], ''1700000000123.jpeg'',
      once\<lparr>issued := issued once @ [(PHOTO_STORAGE, JSON_stringify [])]\<rparr>)"
    by (simp add: deletePhoto_suspended_def Preferences_set_def Let_def photo1_def once_def
          substr_def lastIndexOf_def)
  have b: "CHR ''/'' \<notin> set (filepath photo1)"
    by (simp add: photo1_def)
  show ?thesis
    using deletePhoto_deletes_last_segment [OF deletePhoto_suspended_kept, of native]
      deletePhoto_deletes_last_segment [OF h, of browser] a b h
    by (simp add: deletePhoto_suspended_kept)
qed

text \<open>
  C10 (the encoding helper). \<open>base64FromPath\<close> resolves only with the string of the
  file reader's load event, unchanged. With a reader that follows the File API this is
  the data URL of the fetched blob: it starts with \<open>data:\<close>, ends with the base64
  text of the bytes and is not that bare text. It rejects with the reader's error, with
  the message \<open>method did not return a string\<close> when the result is not a string, and
  with the error of a failed fetch. On the browser platform \<open>savePicture\<close> hands
  that resolved string to \<open>Filesystem.writeFile\<close> under the given name.
\<close>

theorem base64FromPath_data_url:
  "(base64FromPath c p = Inr s \<longrightarrow>
      (\<exists>b. fetch_blob c p = Inr b \<and> readAsDataURL c b = OnLoad (ResultString s))) \<and>
   (fetch_blob c p = Inr b \<and> readAsDataURL c b = OnLoad (ResultString (dataURL b)) \<longrightarrow>
      base64FromPath c p = Inr (dataURL b) \<and>
      take 5 (dataURL b) = ''data:'' \<and>
      dataURL b \<noteq> base64 (blob_bytes b) \<and>
      (\<exists>pre. dataURL b = pre @ base64 (blob_bytes b))) \<and>
   (fetch_blob c p = Inr b \<and> readAsDataURL c b = OnError e \<longrightarrow>
      base64FromPath c p = Inl e) \<and>
   (fetch_blob c p = Inr b \<and> readAsDataURL c b = OnLoad r \<and> (\<forall>t. r \<noteq> ResultString t) \<longrightarrow>
      base64FromPath c p = Inl (Message ''method did not return a string'')) \<and>
   (fetch_blob c p = Inl e' \<longrightarrow> base64FromPath c p = Inl e') \<and>
   (\<not> isHybrid c \<and> savePicture c photo fileName w = (Inr saved, w') \<longrightarrow>
      (\<exists>url. base64FromPath c (webPath photo) = Inr url \<and>
         dataDir w' fileName = Some (writeFile_keeps c url)))"
proof (intro conjI impI)
  assume "base64FromPath c p = Inr s"
  then show "\<exists>b. fetch_blob c p = Inr b \<and> readAsDataURL c b = OnLoad (ResultString s)"
    by (auto simp: base64FromPath_def
             split: sum.splits reader_event.splits reader_result.splits)
next
  assume a: "fetch_blob c p = Inr b \<and> readAsDataURL c b = OnLoad (ResultString (dataURL b))"
  then show "base64FromPath c p = Inr (dataURL b)"
    by (simp add: base64FromPath_def)
  show "take 5 (dataURL b) = ''data:''"
    by (rule dataURL_scheme)
  show "dataURL b \<noteq> base64 (blob_bytes b)"
    by (rule dataURL_not_bare)
  show "\<exists>pre. dataURL b = pre @ base64 (blob_bytes b)"
    unfolding dataURL_def by (metis append.assoc)
next
  assume "fetch_blob c p = Inr b \<and> readAsDataURL c b = OnError e"
  then show "base64FromPath c p = Inl e"
    by (simp add: base64FromPath_def)
next
  assume "fetch_blob c p = Inr b \<and> readAsDataURL c b = OnLoad r \<and> (\<forall>t. r \<noteq> ResultString t)"
  then show "base64FromPath c p = Inl (Message ''method did not return a string'')"
    by (cases r) (simp_all add: base64FromPath_def)
next
  assume "fetch_blob c p = Inl e'"
  then show "base64FromPath c p = Inl e'"
    by (simp add: base64FromPath_def)
next
  assume a: "\<not> isHybrid c \<and> savePicture c photo fileName w = (Inr saved, w')"
  then show "\<exists>url. base64FromPath c (webPath photo) = Inr url \<and>
         dataDir w' fileName = Some (writeFile_keeps c url)"
    using savePicture_resolved [of c photo fileName w saved w'] by auto
qed

theorem base64FromPath_data_url_witness:
  "fetch_blob browser (Some ''blob:http://localhost/7'') = Inr jpeg3 \<and>
   readAsDataURL browser jpeg3 = OnLoad (ResultString (dataURL jpeg3)) \<and>
   base64FromPath browser (Some ''blob:http://localhost/7'') = Inr ''data:image/jpeg;base64,AQID'' \<and>
   base64 (blob_bytes jpeg3) = ''AQID'' \<and>
   readAsDataURL unreadable jpeg3 = OnError ReaderError \<and>
   base64FromPath unreadable (Some ''blob:http://localhost/7'') = Inl ReaderError \<and>
   readAsDataURL binary jpeg3 = OnLoad (ResultArrayBuffer [1, 2, 3]) \<and>
   base64FromPath binary (Some ''blob:http://localhost/7'') =
     Inl (Message ''method did not return a string'') \<and>
   fetch_blob native (Some ''blob:http://localhost/7'') = Inl NetworkError \<and>
   base64FromPath native (Some ''blob:http://localhost/7'') = Inl NetworkError \<and>
   \<not> isHybrid browser \<and>
   dataDir (snd (savePicture browser \<lparr>path = None, webPath = Some ''blob:http://localhost/7''\<rparr>
                   ''1700000000123.jpeg'' fresh)) ''1700000000123.jpeg'' =
     Some ''AQID''"
proof -
  let ?p = "Some ''blob:http://localhost/7''"
  have f: "fetch_blob browser ?p = Inr jpeg3"
    and r: "readAsDataURL browser jpeg3 = OnLoad (ResultString (dataURL jpeg3))"
    and h: "\<not> isHybrid browser"
    by (simp_all add: browser_def)
  have fu: "fetch_blob unreadable ?p = Inr jpeg3"
    and ru: "readAsDataURL unreadable jpeg3 = OnError ReaderError"
    by (simp_all add: unreadable_def browser_def)
  have fb: "fetch_blob binary ?p = Inr jpeg3"
    and rb: "readAsDataURL binary jpeg3 = OnLoad (ResultArrayBuffer [1, 2, 3])"
    by (simp_all add: binary_def browser_def jpeg3_def)
  have fn: "fetch_blob native ?p = Inl NetworkError"
    by (simp add: native_def)
  have 1: "base64FromPath browser ?p = Inr (dataURL jpeg3)"
    using base64FromPath_data_url [of browser ?p _ jpeg3] f r by blast
  have 2: "base64FromPath unreadable ?p = Inl ReaderError"
    using base64FromPath_data_url [of unreadable ?p _ jpeg3 ReaderError] fu ru by blast
  have 3: "base64FromPath binary ?p = Inl (Message ''method did not return a string'')"
    using base64FromPath_data_url
            [of binary ?p _ jpeg3 _ "ResultArrayBuffer [1, 2, 3]"] fb rb
    by blast
  have 4: "base64FromPath native ?p = Inl NetworkError"
    using base64FromPath_data_url [of native ?p _ _ _ _ NetworkError] fn by blast
  show ?thesis
    using f r ru rb fn h 1 2 3 4
    by (simp add: dataURL_jpeg3 base64_jpeg3 savePicture_browser)
qed

end
